theory Spec2Isabelle
  imports Complex_Main "HOL-Library.Sublist"
begin

section \<open>Data model\<close>

text \<open>
  The Result document (\<open>LH.Result\<close>) as the two programs read and write it. An object
  used as a dictionary is a map from its keys; a property that is absent or
  \<open>undefined\<close> is \<open>None\<close>. Strings are byte lists (UTF-8). Only the fields that
  the code touches are listed; the Result itself is used through its record scheme, so
  that every other field of the document is carried along unchanged.
\<close>

datatype error =
    TypeError
  | SyntaxError
  | Error string
  | Thrown string
  | ENOENT
  | ENOTDIR
  | EISDIR
  | EEXIST

record details =
  type :: string
  data :: "string option"

record audit =
  score :: "rat option"
  scoreDisplayMode :: string
  warnings :: "string list option"
  errorMessage :: "string option"
  details :: "details option"

record auditRef =
  id :: string
  weight :: rat

text \<open>
  In the report renderer (\<open>LH.ReportResult\<close>) every audit reference carries the audit
  it refers to.
\<close>

record report_auditRef = auditRef +
  result :: "audit option"

record 'r category =
  categoryId :: string
  title :: string
  categoryScore :: "rat option"
  auditRefs :: "'r list"

record lhr =
  categories :: "string \<rightharpoonup> auditRef category"
  audits :: "string \<rightharpoonup> audit"

section \<open>build-sample-reports.js: the single-category trim\<close>

text \<open>\<open>String.prototype.endsWith\<close>.\<close>

definition endsWith :: "string \<Rightarrow> string \<Rightarrow> bool" where
  "endsWith s searchString =
     (length searchString \<le> length s \<and>
      drop (length s - length searchString) s = searchString)"

text \<open>
  \<open>addPluginCategory\<close> assigns one property of \<open>lhr.categories\<close> in place; the model
  returns the updated Result.
\<close>

definition addPluginCategory :: "'z lhr_scheme \<Rightarrow> 'z lhr_scheme" where
  "addPluginCategory lhr =
     lhr\<lparr>categories := (categories lhr)(''lighthouse-plugin-someplugin'' \<mapsto>
       \<lparr>categoryId = ''lighthouse-plugin-someplugin'',
        title = ''Plugin'',
        categoryScore = Some (1 / 2),
        auditRefs = []\<rparr>)\<rparr>"

text \<open>
  \<open>tweakLhrForPsi\<close>. The clone \<open>JSON.parse(JSON.stringify(lhr))\<close> of a Result is the
  same value again (the document is a finite tree of JSON values); which objects the
  clone is made of is the subject of the store model further down. When the clone has
  no \<open>performance\<close> category, \<open>clone.categories.performance\<close> is \<open>undefined\<close> and
  reading its \<open>auditRefs\<close> raises a TypeError.
\<close>

definition tweakLhrForPsi :: "'z lhr_scheme \<Rightarrow> error + 'z lhr_scheme" where
  "tweakLhrForPsi lhr =
     (let clone = lhr in
      case categories clone ''performance'' of
        None \<Rightarrow> Inl TypeError
      | Some performance \<Rightarrow>
          Inr (clone\<lparr>
            categories := [''performance'' \<mapsto>
              performance\<lparr>auditRefs :=
                filter (\<lambda>audit. \<not> endsWith (id audit) ''-budget'') (auditRefs performance)\<rparr>],
            audits := (audits clone)(''performance-budget'' := None)\<rparr>))"

section \<open>The file system\<close>

text \<open>
  The part of the file system the build script uses. A path is read as its list of
  non-empty segments, so \<open>a//b\<close> and \<open>a/b/\<close> name the same entry as \<open>a/b\<close>. The
  failures modelled are those the state of the tree decides (a missing entry, a file
  where a directory is needed and the reverse).
\<close>

datatype node = File string | Dir

type_synonym fs = "string list \<rightharpoonup> node"

fun splitOn :: "char \<Rightarrow> string \<Rightarrow> string list" where
  "splitOn sep [] = [[]]"
| "splitOn sep (c # cs) =
     (if c = sep then [] # splitOn sep cs
      else (case splitOn sep cs of
              [] \<Rightarrow> [[c]]
            | seg # segs \<Rightarrow> (c # seg) # segs))"

definition segments :: "string \<Rightarrow> string list" where
  "segments p = filter (\<lambda>seg. seg \<noteq> []) (splitOn CHR ''/'' p)"

definition isFile :: "node option \<Rightarrow> bool" where
  "isFile n = (case n of Some (File content) \<Rightarrow> True | _ \<Rightarrow> False)"

text \<open>\<open>fs.mkdirSync(p, {recursive: true})\<close>: every missing ancestor is created.\<close>

definition mkdirSync :: "fs \<Rightarrow> string \<Rightarrow> error + fs" where
  "mkdirSync fs p =
     (let segs = segments p in
      if isFile (fs segs) then Inl EEXIST
      else if list_ex (\<lambda>q. isFile (fs q)) (prefixes segs) then Inl ENOTDIR
      else Inr (\<lambda>q. if prefix q segs then Some Dir else fs q))"

text \<open>\<open>fs.writeFileSync(p, data)\<close>: creates the file or overwrites it.\<close>

definition writeFileSync :: "fs \<Rightarrow> string \<Rightarrow> string \<Rightarrow> error + fs" where
  "writeFileSync fs p content =
     (let segs = segments p in
      if segs = [] then Inl EISDIR
      else (case fs (butlast segs) of
              None \<Rightarrow> Inl ENOENT
            | Some (File c) \<Rightarrow> Inl ENOTDIR
            | Some Dir \<Rightarrow>
                (case fs segs of
                   Some Dir \<Rightarrow> Inl EISDIR
                 | _ \<Rightarrow> Inr (fs(segs \<mapsto> File content)))))"

definition readFileSync :: "fs \<Rightarrow> string \<Rightarrow> error + string" where
  "readFileSync fs p =
     (case fs (segments p) of
        None \<Rightarrow> Inl ENOENT
      | Some Dir \<Rightarrow> Inl EISDIR
      | Some (File content) \<Rightarrow> Inr content)"

text \<open>\<open>fs.rmdirSync(p, {recursive: true})\<close>: the directory and all below it.\<close>

definition rmdirSync :: "fs \<Rightarrow> string \<Rightarrow> error + fs" where
  "rmdirSync fs p =
     (let segs = segments p in
      case fs segs of
        None \<Rightarrow> Inl ENOENT
      | Some (File c) \<Rightarrow> Inl ENOTDIR
      | Some Dir \<Rightarrow> Inr (\<lambda>q. if prefix segs q then None else fs q))"

text \<open>
  \<open>path.dirname\<close>, for a path \<open>d/f\<close> whose last segment \<open>f\<close> is not empty: all
  before the last separator.
\<close>

definition dirname :: "string \<Rightarrow> string" where
  "dirname p = rev (tl (dropWhile (\<lambda>c. c \<noteq> CHR ''/'') (rev p)))"

section \<open>build-sample-reports.js: collaborators\<close>

text \<open>
  What the script requires from other modules (the audit-only executor, the locale
  swapper, the report generator and its assets, the repository root) is a parameter of
  the model. A collaborator that can throw returns an \<open>error\<close>. The executor reads
  the file system; it does not write to it.
\<close>

record 'z runnerResult =
  runner_lhr :: "'z lhr_scheme"

record 'z env =
  LH_ROOT :: string
  artifactsJson :: string
  lighthouse :: "string \<Rightarrow> string \<Rightarrow> fs \<Rightarrow> error + 'z runnerResult option"
  swapLocale :: "'z lhr_scheme \<Rightarrow> string \<Rightarrow> error + 'z lhr_scheme"
  generateReportHtml :: "'z lhr_scheme \<Rightarrow> error + string"
  sanitizeJson :: "'z lhr_scheme \<Rightarrow> error + string"
  replaceStrings :: "string \<Rightarrow> (string \<times> string) list \<Rightarrow> string"
  REPORT_CSS :: string

text \<open>\<open>path.join(LH_ROOT, 'dist/now')\<close>, for a normalized \<open>LH_ROOT\<close>.\<close>

definition DIST :: "'z env \<Rightarrow> string" where
  "DIST env = LH_ROOT env @ ''/dist/now''"

definition TMP :: "'z env \<Rightarrow> string" where
  "TMP env = DIST env @ ''/.tmp/''"

section \<open>build-sample-reports.js: the synthetic error-path builder\<close>

definition fontDisplayWarnings :: "string list" where
  "fontDisplayWarnings =
     [''Lighthouse was unable to automatically check the font-display value for the following URL: https://secure-ds.serving-sys.com/resources/PROD/html5/105657/20190307/1074580285/43862346571980472/fonts/IBMPlexSans-Light-Latin1.woff.'',
      ''Lighthouse was unable to automatically check the font-display value for the following URL: https://secure-ds.serving-sys.com/resources/PROD/html5/105657/20190307/1074580285/43862346571980472/fonts/IBMPlexSans-Bold-Latin1.woff.'']"

text \<open>
  \<open>generateErrorLHR\<close> returns its outcome together with the file system it leaves
  behind, so that the tree can be inspected at the moment an error escapes. Reading a
  property of an audit that the executor's Result lacks raises a TypeError.
\<close>

definition generateErrorLHR :: "'z env \<Rightarrow> fs \<Rightarrow> (error + 'z lhr_scheme) \<times> fs" where
  "generateErrorLHR env fs0 =
     (case mkdirSync fs0 (TMP env) of
        Inl e \<Rightarrow> (Inl e, fs0)
      | Inr fs1 \<Rightarrow>
     (case writeFileSync fs1 (TMP env @ ''/artifacts.json'') (artifactsJson env) of
        Inl e \<Rightarrow> (Inl e, fs1)
      | Inr fs2 \<Rightarrow>
     (case lighthouse env ''http://fakeurl.com'' (TMP env) fs2 of
        Inl e \<Rightarrow> (Inl e, fs2)
      | Inr None \<Rightarrow> (Inl (Error ''Failed to run lighthouse on empty artifacts''), fs2)
      | Inr (Some errorRunnerResult) \<Rightarrow>
     (let errorLhr = runner_lhr errorRunnerResult in
      case audits errorLhr ''font-display'' of
        None \<Rightarrow> (Inl TypeError, fs2)
      | Some fontDisplay \<Rightarrow>
     (let errorLhr = errorLhr\<lparr>audits := (audits errorLhr)(''font-display'' \<mapsto>
            fontDisplay\<lparr>warnings := Some fontDisplayWarnings\<rparr>)\<rparr> in
      case audits errorLhr ''offscreen-images'' of
        None \<Rightarrow> (Inl TypeError, fs2)
      | Some offscreenImagesAudit \<Rightarrow>
     (let errorLhr = errorLhr\<lparr>audits := (audits errorLhr)(''offscreen-images'' \<mapsto>
            offscreenImagesAudit\<lparr>
              warnings := Some [''Invalid image sizing information: https://cdn.cnn.com/cnn/.e1mo/img/4.0/vr/vr_new_asset.png''],
              errorMessage := None,
              scoreDisplayMode := ''binary'',
              score := Some 1\<rparr>)\<rparr> in
      case audits errorLhr ''apple-touch-icon'' of
        None \<Rightarrow> (Inl TypeError, fs2)
      | Some appleTouchIconAudit \<Rightarrow>
     (let errorLhr = errorLhr\<lparr>audits := (audits errorLhr)(''apple-touch-icon'' \<mapsto>
            appleTouchIconAudit\<lparr>
              warnings := Some [''`apple-touch-icon-precomposed` is out of date; `apple-touch-icon` is preferred.''],
              errorMessage := None,
              scoreDisplayMode := ''binary'',
              score := Some 1\<rparr>)\<rparr> in
      case rmdirSync fs2 (TMP env) of
        Inl e \<Rightarrow> (Inl e, fs2)
      | Inr fs3 \<Rightarrow> (Inr errorLhr, fs3))))))))"

section \<open>build-sample-reports.js: the orchestrator\<close>

text \<open>\<open>String.prototype.includes\<close>, and \<open>String.prototype.replace\<close> with a string
  pattern (the first occurrence only) and a replacement without \<open>$\<close>.\<close>

fun includesStr :: "string \<Rightarrow> string \<Rightarrow> bool" where
  "includesStr [] searchString = (searchString = [])"
| "includesStr (c # cs) searchString =
     (prefix searchString (c # cs) \<or> includesStr cs searchString)"

fun replace :: "string \<Rightarrow> string \<Rightarrow> string \<Rightarrow> string" where
  "replace [] pattern replacement = (if pattern = [] then replacement else [])"
| "replace (c # cs) pattern replacement =
     (if prefix pattern (c # cs) then replacement @ drop (length pattern) (c # cs)
      else c # replace cs pattern replacement)"

text \<open>
  \<open>generatePsiReportHtml\<close> has no parameter: the \<open>lhr\<close> it trims is the variable of
  the module, passed here as \<open>lhr\<close>.
\<close>

definition generatePsiReportHtml :: "'z env \<Rightarrow> 'z lhr_scheme \<Rightarrow> fs \<Rightarrow> error + string" where
  "generatePsiReportHtml env lhr fs =
     (case tweakLhrForPsi lhr of
        Inl e \<Rightarrow> Inl e
      | Inr tweaked \<Rightarrow>
     (case sanitizeJson env tweaked of
        Inl e \<Rightarrow> Inl e
      | Inr sanitizedJson \<Rightarrow>
     (case readFileSync fs (LH_ROOT env @ ''/report/test-assets/faux-psi-template.html'') of
        Inl e \<Rightarrow> Inl e
      | Inr PSI_TEMPLATE \<Rightarrow>
     (case readFileSync fs (LH_ROOT env @ ''/dist/report/psi.js'') of
        Inl e \<Rightarrow> Inl e
      | Inr psi_js \<Rightarrow>
     (case readFileSync fs (LH_ROOT env @ ''/report/test-assets/faux-psi.js'') of
        Inl e \<Rightarrow> Inl e
      | Inr faux_psi_js \<Rightarrow>
     (let PSI_JAVASCRIPT =
            [CHR 0x0A] @ psi_js @ '';'' @ [CHR 0x0A] @ faux_psi_js @ '';'' @ [CHR 0x0A] @ ''  ''
      in Inr (replaceStrings env PSI_TEMPLATE
           [(''%%LIGHTHOUSE_JSON%%'', sanitizedJson),
            (''%%LIGHTHOUSE_JAVASCRIPT%%'', PSI_JAVASCRIPT),
            (''/*%%LIGHTHOUSE_CSS%%*/'', REPORT_CSS env)])))))))"

text \<open>
  The state of a run: the module's variable \<open>lhr\<close>, the file system and the lines
  printed by \<open>console.log\<close>.
\<close>

record 'z state =
  lhr_var :: "'z lhr_scheme"
  files :: fs
  console :: "string list"

text \<open>The body of the inner loop up to the markup: \<open>lhr\<close> is the loop's own Result.\<close>

definition reportHtml ::
  "'z env \<Rightarrow> 'z state \<Rightarrow> string \<Rightarrow> 'z lhr_scheme \<Rightarrow> error + string" where
  "reportHtml env s variant lhr =
     (case (if includesStr variant ''psi''
            then generatePsiReportHtml env (lhr_var s) (files s)
            else generateReportHtml env lhr) of
        Inl e \<Rightarrow> Inl e
      | Inr html \<Rightarrow>
          Inr (if includesStr variant ''cdt''
               then replace html ([CHR 0x22] @ ''lh-root lh-vars'' @ [CHR 0x22])
                      ([CHR 0x22] @ ''lh-root lh-vars lh-devtools'' @ [CHR 0x22])
               else html))"

definition filepathOf :: "'z env \<Rightarrow> string \<Rightarrow> string \<Rightarrow> string" where
  "filepathOf env variant filename = DIST env @ ''/'' @ variant @ filename @ ''/index.html''"

definition writtenLine :: "string \<Rightarrow> string" where
  "writtenLine filepath = [CHR 0xE2, CHR 0x9C, CHR 0x85] @ '' '' @ filepath @ '' written.''"

definition writeReport ::
  "'z env \<Rightarrow> 'z state \<Rightarrow> string \<Rightarrow> 'z lhr_scheme \<Rightarrow> string \<Rightarrow> (error + unit) \<times> 'z state" where
  "writeReport env s filename lhr variant =
     (case reportHtml env s variant lhr of
        Inl e \<Rightarrow> (Inl e, s)
      | Inr html \<Rightarrow>
     (let filepath = filepathOf env variant filename in
      case mkdirSync (files s) (dirname filepath) of
        Inl e \<Rightarrow> (Inl e, s)
      | Inr fs1 \<Rightarrow>
     (case writeFileSync fs1 filepath html of
        Inl e \<Rightarrow> (Inl e, s\<lparr>files := fs1\<rparr>)
      | Inr fs2 \<Rightarrow>
          (Inr (), s\<lparr>files := fs2, console := console s @ [writtenLine filepath]\<rparr>))))"

definition variants :: "string list" where
  "variants = ['''', [CHR 0xE2, CHR 0x8C, CHR 0xA3] @ ''.cdt.'', [CHR 0xE2, CHR 0x8C, CHR 0xA3] @ ''.psi.'']"

fun forVariants ::
  "'z env \<Rightarrow> 'z state \<Rightarrow> string \<Rightarrow> 'z lhr_scheme \<Rightarrow> string list \<Rightarrow> (error + unit) \<times> 'z state" where
  "forVariants env s filename lhr [] = (Inr (), s)"
| "forVariants env s filename lhr (variant # rest) =
     (case writeReport env s filename lhr variant of
        (Inl e, s') \<Rightarrow> (Inl e, s')
      | (Inr u, s') \<Rightarrow> forVariants env s' filename lhr rest)"

fun forEachEntry ::
  "'z env \<Rightarrow> 'z state \<Rightarrow> (string \<times> 'z lhr_scheme) list \<Rightarrow> (error + unit) \<times> 'z state" where
  "forEachEntry env s [] = (Inr (), s)"
| "forEachEntry env s ((filename, lhr) # rest) =
     (case forVariants env s filename lhr variants of
        (Inl e, s') \<Rightarrow> (Inl e, s')
      | (Inr u, s') \<Rightarrow> forEachEntry env s' rest)"

text \<open>The six names of \<open>filenameToLhr\<close>, in the order of the object literal.\<close>

definition filenames :: "string list" where
  "filenames = [''english'', ''espanol'', [CHR 0xC9, CHR 0x91] @ ''rabic'', ''xl-accented'',
     ''error'', ''single-category'']"

definition filenameToLhr ::
  "'z env \<Rightarrow> 'z lhr_scheme \<Rightarrow> 'z lhr_scheme \<Rightarrow> error + (string \<times> 'z lhr_scheme) list" where
  "filenameToLhr env lhr errorLhr =
     (case swapLocale env lhr ''es'' of
        Inl e \<Rightarrow> Inl e
      | Inr es \<Rightarrow>
     (case swapLocale env lhr ''ar'' of
        Inl e \<Rightarrow> Inl e
      | Inr ar \<Rightarrow>
     (case swapLocale env lhr ''en-XL'' of
        Inl e \<Rightarrow> Inl e
      | Inr xl \<Rightarrow>
     (case tweakLhrForPsi lhr of
        Inl e \<Rightarrow> Inl e
      | Inr single \<Rightarrow> Inr (zip filenames [lhr, es, ar, xl, errorLhr, single])))))"

text \<open>The body of the script's main function.\<close>

definition run :: "'z env \<Rightarrow> 'z state \<Rightarrow> (error + unit) \<times> 'z state" where
  "run env s0 =
     (let s1 = s0\<lparr>lhr_var := addPluginCategory (lhr_var s0)\<rparr> in
      case generateErrorLHR env (files s1) of
        (Inl e, fs') \<Rightarrow> (Inl e, s1\<lparr>files := fs'\<rparr>)
      | (Inr errorLhr, fs') \<Rightarrow>
     (let s2 = s1\<lparr>files := fs'\<rparr> in
      case filenameToLhr env (lhr_var s2) errorLhr of
        Inl e \<Rightarrow> (Inl e, s2)
      | Inr entries \<Rightarrow> forEachEntry env s2 entries))"

section \<open>psi.js: the final screenshot\<close>

text \<open>The value \<open>_getFinalScreenshot\<close> returns: \<open>null\<close>, or what \<open>details.data\<close> holds.\<close>

datatype js_string = Null | Undefined | Str string

definition js_of :: "string option \<Rightarrow> js_string" where
  "js_of v = (case v of None \<Rightarrow> Undefined | Some s \<Rightarrow> Str s)"

definition getFinalScreenshot :: "report_auditRef category \<Rightarrow> js_string" where
  "getFinalScreenshot perfCategory =
     (case find (\<lambda>audit. id audit = ''final-screenshot'') (auditRefs perfCategory) of
        None \<Rightarrow> Null
      | Some auditRef \<Rightarrow>
          (case result auditRef of
             None \<Rightarrow> Null
           | Some res \<Rightarrow>
               if scoreDisplayMode res = ''error'' then Null
               else (case details res of
                       None \<Rightarrow> Null
                     | Some d \<Rightarrow>
                         if type d \<noteq> ''screenshot'' then Null
                         else js_of (data d))))"

section \<open>build-sample-reports.js: the single-category trim on a store\<close>

text \<open>
  JavaScript values and the store. An object or an array lives in the store at an
  address, and a value refers to it by that address; two references to one address are
  the same object. The store is the list of all objects allocated so far: a new object
  gets the next address. A property that holds \<open>undefined\<close> is kept as such.
\<close>

datatype jsval = JUndefined | JNull | JBool bool | JNumber rat | JString string | JRef nat

datatype jsobj = JObject "(string \<times> jsval) list" | JArray "jsval list"

type_synonym heap = "jsobj list"

text \<open>The text that \<open>JSON.stringify\<close> produces, as the tree it denotes.\<close>

datatype json =
    JsonNull
  | JsonBool bool
  | JsonNumber rat
  | JsonString string
  | JsonArray "json list"
  | JsonObject "(string \<times> json) list"

text \<open>The results of a list of steps, up to the first that raises.\<close>

fun collect :: "(error + 'a) list \<Rightarrow> error + 'a list" where
  "collect [] = Inr []"
| "collect (x # xs) =
     (case x of
        Inl e \<Rightarrow> Inl e
      | Inr a \<Rightarrow> (case collect xs of Inl e \<Rightarrow> Inl e | Inr as \<Rightarrow> Inr (a # as)))"

text \<open>
  \<open>JSON.stringify\<close>. The second argument is the stack of the objects being
  serialized: meeting one of them again is a cycle, and raises a TypeError. A reference
  outside the store does not occur in a JavaScript store; the model raises there as
  well. A property that holds \<open>undefined\<close> is left out of an object, and an
  element that is \<open>undefined\<close> becomes \<open>null\<close> in an array; \<open>None\<close> is the
  result \<open>undefined\<close> of serializing \<open>undefined\<close> itself.
\<close>

function stringify :: "heap \<Rightarrow> nat list \<Rightarrow> jsval \<Rightarrow> error + json option" where
  "stringify h stack JUndefined = Inr None"
| "stringify h stack JNull = Inr (Some JsonNull)"
| "stringify h stack (JBool b) = Inr (Some (JsonBool b))"
| "stringify h stack (JNumber n) = Inr (Some (JsonNumber n))"
| "stringify h stack (JString s) = Inr (Some (JsonString s))"
| "stringify h stack (JRef a) =
     (if a \<in> set stack \<or> length h \<le> a then Inl TypeError
      else (case h ! a of
              JArray elements \<Rightarrow>
                (case collect (map (stringify h (a # stack)) elements) of
                   Inl e \<Rightarrow> Inl e
                 | Inr js \<Rightarrow>
                     Inr (Some (JsonArray
                       (map (\<lambda>j. case j of None \<Rightarrow> JsonNull | Some x \<Rightarrow> x) js))))
            | JObject props \<Rightarrow>
                (case collect (map (\<lambda>(k, v). case stringify h (a # stack) v of
                                               Inl e \<Rightarrow> Inl e
                                             | Inr j \<Rightarrow> Inr (k, j)) props) of
                   Inl e \<Rightarrow> Inl e
                 | Inr kjs \<Rightarrow>
                     Inr (Some (JsonObject
                       (concat (map (\<lambda>(k, j). case j of None \<Rightarrow> [] | Some x \<Rightarrow> [(k, x)])
                          kjs)))))))"
  by pat_completeness auto
termination
proof (relation "measure (\<lambda>(h, stack, v). card ({..<length h} - set stack))")
  show "wf (measure (\<lambda>(h, stack, v). card ({..<length h} - set stack)))" by simp
next
  fix h :: heap and stack a x2 x
  assume "\<not> (a \<in> set stack \<or> length h \<le> a)"
  then have "a \<in> {..<length h} - set stack" by simp
  moreover have "{..<length h} - set (a # stack) = ({..<length h} - set stack) - {a}"
    by (simp only: list.set) blast
  ultimately have "card ({..<length h} - set (a # stack)) < card ({..<length h} - set stack)"
    by (simp only: card_Diff1_less finite_Diff finite_lessThan)
  then show "((h, a # stack, x), h, stack, JRef a)
       \<in> measure (\<lambda>(h, stack, v). card ({..<length h} - set stack))"
    by simp
next
  fix h :: heap and stack a x1 x xa y
  assume "\<not> (a \<in> set stack \<or> length h \<le> a)"
  then have "a \<in> {..<length h} - set stack" by simp
  moreover have "{..<length h} - set (a # stack) = ({..<length h} - set stack) - {a}"
    by (simp only: list.set) blast
  ultimately have "card ({..<length h} - set (a # stack)) < card ({..<length h} - set stack)"
    by (simp only: card_Diff1_less finite_Diff finite_lessThan)
  then show "((h, a # stack, y), h, stack, JRef a)
       \<in> measure (\<lambda>(h, stack, v). card ({..<length h} - set stack))"
    by simp
qed

text \<open>\<open>JSON.parse\<close>: every array and object of the text is allocated anew.\<close>

fun parse :: "json \<Rightarrow> heap \<Rightarrow> jsval \<times> heap"
  and parseElements :: "json list \<Rightarrow> heap \<Rightarrow> jsval list \<times> heap"
  and parseMembers :: "(string \<times> json) list \<Rightarrow> heap \<Rightarrow> (string \<times> jsval) list \<times> heap" where
  "parse JsonNull h = (JNull, h)"
| "parse (JsonBool b) h = (JBool b, h)"
| "parse (JsonNumber n) h = (JNumber n, h)"
| "parse (JsonString s) h = (JString s, h)"
| "parse (JsonArray js) h =
     (case parseElements js h of (elements, h') \<Rightarrow> (JRef (length h'), h' @ [JArray elements]))"
| "parse (JsonObject ms) h =
     (case parseMembers ms h of (props, h') \<Rightarrow> (JRef (length h'), h' @ [JObject props]))"
| "parseElements [] h = ([], h)"
| "parseElements (j # js) h =
     (case parse j h of (v, h1) \<Rightarrow>
        (case parseElements js h1 of (vs, h2) \<Rightarrow> (v # vs, h2)))"
| "parseMembers [] h = ([], h)"
| "parseMembers ((k, j) # ms) h =
     (case parse j h of (v, h1) \<Rightarrow>
        (case parseMembers ms h1 of (props, h2) \<Rightarrow> ((k, v) # props, h2)))"

text \<open>
  Reading, assigning and deleting a property, for the property names that
  \<open>tweakLhrForPsi\<close> uses (none of them is a built-in property of a string, a number
  or an array). Reading a property of \<open>undefined\<close> or \<open>null\<close> raises a TypeError, and
  so does assigning to a property of a primitive value (the script is in strict mode).
  Arrays hold elements only: the two assignments of \<open>tweakLhrForPsi\<close> have objects
  as their targets (\<open>setProp_categories_succeeds\<close> and \<open>setProp_auditRefs_succeeds\<close>
  below).
\<close>

definition getProp :: "heap \<Rightarrow> jsval \<Rightarrow> string \<Rightarrow> error + jsval" where
  "getProp h base key =
     (case base of
        JUndefined \<Rightarrow> Inl TypeError
      | JNull \<Rightarrow> Inl TypeError
      | JRef a \<Rightarrow>
          (if length h \<le> a then Inl TypeError
           else (case h ! a of
                   JObject props \<Rightarrow>
                     Inr (case map_of props key of None \<Rightarrow> JUndefined | Some v \<Rightarrow> v)
                 | JArray elements \<Rightarrow> Inr JUndefined))
      | _ \<Rightarrow> Inr JUndefined)"

fun setKey :: "(string \<times> jsval) list \<Rightarrow> string \<Rightarrow> jsval \<Rightarrow> (string \<times> jsval) list" where
  "setKey [] key v = [(key, v)]"
| "setKey ((k, w) # props) key v =
     (if k = key then (k, v) # props else (k, w) # setKey props key v)"

definition setProp :: "heap \<Rightarrow> jsval \<Rightarrow> string \<Rightarrow> jsval \<Rightarrow> error + heap" where
  "setProp h base key v =
     (case base of
        JRef a \<Rightarrow>
          (if length h \<le> a then Inl TypeError
           else (case h ! a of
                   JObject props \<Rightarrow> Inr (h[a := JObject (setKey props key v)])
                 | JArray elements \<Rightarrow> Inl TypeError))
      | _ \<Rightarrow> Inl TypeError)"

definition deleteProp :: "heap \<Rightarrow> jsval \<Rightarrow> string \<Rightarrow> error + heap" where
  "deleteProp h base key =
     (case base of
        JUndefined \<Rightarrow> Inl TypeError
      | JNull \<Rightarrow> Inl TypeError
      | JRef a \<Rightarrow>
          (if length h \<le> a then Inl TypeError
           else (case h ! a of
                   JObject props \<Rightarrow> Inr (h[a := JObject (filter (\<lambda>(k, w). k \<noteq> key) props)])
                 | JArray elements \<Rightarrow> Inr h))
      | _ \<Rightarrow> Inr h)"

text \<open>
  The callback \<open>audit => !audit.id.endsWith('-budget')\<close>, and \<open>Array.prototype.filter\<close>
  with it: the receiver must be an array and every \<open>id\<close> a string, or the call raises a
  TypeError. The filtered array is a new object.
\<close>

definition notBudget :: "heap \<Rightarrow> jsval \<Rightarrow> error + bool" where
  "notBudget h audit =
     (case getProp h audit ''id'' of
        Inl e \<Rightarrow> Inl e
      | Inr (JString s) \<Rightarrow> Inr (\<not> endsWith s ''-budget'')
      | Inr _ \<Rightarrow> Inl TypeError)"

definition filterAuditRefs :: "heap \<Rightarrow> jsval \<Rightarrow> error + jsval list" where
  "filterAuditRefs h refs =
     (case refs of
        JRef a \<Rightarrow>
          (if length h \<le> a then Inl TypeError
           else (case h ! a of
                   JArray elements \<Rightarrow>
                     (case collect (map (notBudget h) elements) of
                        Inl e \<Rightarrow> Inl e
                      | Inr keep \<Rightarrow> Inr (map fst (filter snd (zip elements keep))))
                 | JObject props \<Rightarrow> Inl TypeError))
      | _ \<Rightarrow> Inl TypeError)"

text \<open>
  \<open>JSON.parse(JSON.stringify(v))\<close>. Parsing the result of serializing \<open>undefined\<close>
  raises a SyntaxError.
\<close>

definition jsonClone :: "heap \<Rightarrow> jsval \<Rightarrow> (error + jsval) \<times> heap" where
  "jsonClone h v =
     (case stringify h [] v of
        Inl e \<Rightarrow> (Inl e, h)
      | Inr None \<Rightarrow> (Inl SyntaxError, h)
      | Inr (Some text) \<Rightarrow> (case parse text h of (clone, h') \<Rightarrow> (Inr clone, h')))"

text \<open>
  \<open>tweakLhrForPsi\<close> on the store, statement by statement. It returns its outcome and
  the store it leaves. In the last assignment \<open>clone.categories.performance\<close> is
  read once, for both sides (nothing is assigned in between).
\<close>

definition tweakLhrForPsi_heap :: "heap \<Rightarrow> jsval \<Rightarrow> (error + jsval) \<times> heap" where
  "tweakLhrForPsi_heap h lhr =
     (case jsonClone h lhr of
        (Inl e, h1) \<Rightarrow> (Inl e, h1)
      | (Inr clone, h1) \<Rightarrow>
     (case getProp h1 clone ''categories'' of
        Inl e \<Rightarrow> (Inl e, h1)
      | Inr cats \<Rightarrow>
     (case getProp h1 cats ''performance'' of
        Inl e \<Rightarrow> (Inl e, h1)
      | Inr perf \<Rightarrow>
     (let h2 = h1 @ [JObject [(''performance'', perf)]] in
      case setProp h2 clone ''categories'' (JRef (length h1)) of
        Inl e \<Rightarrow> (Inl e, h2)
      | Inr h3 \<Rightarrow>
     (case getProp h3 clone ''audits'' of
        Inl e \<Rightarrow> (Inl e, h3)
      | Inr auds \<Rightarrow>
     (case deleteProp h3 auds ''performance-budget'' of
        Inl e \<Rightarrow> (Inl e, h3)
      | Inr h4 \<Rightarrow>
     (case getProp h4 clone ''categories'' of
        Inl e \<Rightarrow> (Inl e, h4)
      | Inr cats' \<Rightarrow>
     (case getProp h4 cats' ''performance'' of
        Inl e \<Rightarrow> (Inl e, h4)
      | Inr perf' \<Rightarrow>
     (case getProp h4 perf' ''auditRefs'' of
        Inl e \<Rightarrow> (Inl e, h4)
      | Inr refs \<Rightarrow>
     (case filterAuditRefs h4 refs of
        Inl e \<Rightarrow> (Inl e, h4)
      | Inr ks \<Rightarrow>
     (let h5 = h4 @ [JArray ks] in
      case setProp h5 perf' ''auditRefs'' (JRef (length h4)) of
        Inl e \<Rightarrow> (Inl e, h5)
      | Inr h6 \<Rightarrow> (Inr clone, h6))))))))))))"

section \<open>Notions used in the proofs\<close>

text \<open>
  The two nested loops of the script as one sequence of steps, one per pair of a name
  and a flavor; the paths the spec gives for the reports; the files that
  \<open>generatePsiReportHtml\<close> reads; and what must be free in the file system for the
  reports to be written.
\<close>

fun writeReports ::
  "'z env \<Rightarrow> 'z state \<Rightarrow> (string \<times> 'z lhr_scheme \<times> string) list \<Rightarrow> (error + unit) \<times> 'z state" where
  "writeReports env s [] = (Inr (), s)"
| "writeReports env s ((filename, lhr, variant) # rest) =
     (case writeReport env s filename lhr variant of
        (Inl e, s') \<Rightarrow> (Inl e, s')
      | (Inr u, s') \<Rightarrow> writeReports env s' rest)"

definition stepsOf ::
  "(string \<times> 'z lhr_scheme) list \<Rightarrow> (string \<times> 'z lhr_scheme \<times> string) list" where
  "stepsOf entries =
     concat (map (\<lambda>(filename, lhr). map (\<lambda>variant. (filename, lhr, variant)) variants) entries)"

definition stepPath :: "'z env \<Rightarrow> string \<times> 'z lhr_scheme \<times> string \<Rightarrow> string list" where
  "stepPath env step = (case step of (filename, lhr, variant) \<Rightarrow> segments (filepathOf env variant filename))"

definition expectedPaths :: "'z env \<Rightarrow> string list" where
  "expectedPaths env =
     concat (map (\<lambda>filename. map (\<lambda>variant. filepathOf env variant filename) variants) filenames)"

definition validName :: "string \<Rightarrow> bool" where
  "validName n = (n \<noteq> [] \<and> CHR ''/'' \<notin> set n)"

definition reportNames :: "string list" where
  "reportNames = concat (map (\<lambda>filename. map (\<lambda>variant. variant @ filename) variants) filenames)"

definition assetPaths :: "'z env \<Rightarrow> string list" where
  "assetPaths env =
     [LH_ROOT env @ ''/report/test-assets/faux-psi-template.html'',
      LH_ROOT env @ ''/dist/report/psi.js'',
      LH_ROOT env @ ''/report/test-assets/faux-psi.js'']"

definition clearFor :: "'z env \<Rightarrow> fs \<Rightarrow> string list \<Rightarrow> bool" where
  "clearFor env fs names =
     (\<forall>n \<in> set names.
        (\<forall>q. prefix q (segments (DIST env) @ [n]) \<longrightarrow> \<not> isFile (fs q)) \<and>
        fs (segments (DIST env) @ [n, ''index.html'']) \<noteq> Some Dir)"

text \<open>
  What a run needs to complete: nothing in the way of the scratch directory and of the
  reports, an executor that returns a Result with the three audits that are edited,
  collaborators that do not throw, a performance category in the base Result, and the
  three files that \<open>generatePsiReportHtml\<close> reads.
\<close>

definition runnable :: "'z env \<Rightarrow> 'z state \<Rightarrow> bool" where
  "runnable env s0 =
     ((\<forall>q. prefix q (segments (TMP env)) \<longrightarrow> \<not> isFile (files s0 q)) \<and>
      files s0 (segments (TMP env) @ [''artifacts.json'']) \<noteq> Some Dir \<and>
      (\<exists>rr.
         (\<forall>fs2. fs2 (segments (TMP env) @ [''artifacts.json'']) = Some (File (artifactsJson env)) \<longrightarrow>
            lighthouse env ''http://fakeurl.com'' (TMP env) fs2 = Inr (Some rr)) \<and>
         audits (runner_lhr rr) ''font-display'' \<noteq> None \<and>
         audits (runner_lhr rr) ''offscreen-images'' \<noteq> None \<and>
         audits (runner_lhr rr) ''apple-touch-icon'' \<noteq> None) \<and>
      (\<forall>l locale. \<exists>l'. swapLocale env l locale = Inr l') \<and>
      categories (lhr_var s0) ''performance'' \<noteq> None \<and>
      (\<forall>l. \<exists>h. generateReportHtml env l = Inr h) \<and>
      (\<forall>l. \<exists>j. sanitizeJson env l = Inr j) \<and>
      (\<forall>p \<in> set (assetPaths env). isFile (files s0 (segments p))) \<and>
      clearFor env (files s0) reportNames)"

text \<open>
  For the store: the addresses an object refers to, the addresses reachable from a
  value, a value that refers to no address below a bound, a store whose objects from a
  bound on refer to no address below it, and a store that extends another by such
  objects.
\<close>

fun refsOf :: "jsobj \<Rightarrow> nat set" where
  "refsOf (JObject props) = {a. JRef a \<in> snd ` set props}"
| "refsOf (JArray elements) = {a. JRef a \<in> set elements}"

inductive_set reach :: "heap \<Rightarrow> jsval \<Rightarrow> nat set" for h :: heap and v :: jsval where
  root: "v = JRef a \<Longrightarrow> a \<in> reach h v"
| step: "a \<in> reach h v \<Longrightarrow> a < length h \<Longrightarrow> b \<in> refsOf (h ! a) \<Longrightarrow> b \<in> reach h v"

definition fresh :: "nat \<Rightarrow> jsval \<Rightarrow> bool" where
  "fresh lo v = (case v of JRef a \<Rightarrow> lo \<le> a | _ \<Rightarrow> True)"

definition closedFrom :: "nat \<Rightarrow> heap \<Rightarrow> bool" where
  "closedFrom lo h = (\<forall>a. lo \<le> a \<and> a < length h \<longrightarrow> (\<forall>b \<in> refsOf (h ! a). lo \<le> b))"

definition extendsClosed :: "heap \<Rightarrow> heap \<Rightarrow> bool" where
  "extendsClosed h h' = (length h \<le> length h' \<and> take (length h) h' = h \<and> closedFrom (length h) h')"

text \<open>
  A value that refers to no address from a bound on, and a store whose objects from a
  bound on refer to addresses of the store only.
\<close>

definition below :: "nat \<Rightarrow> jsval \<Rightarrow> bool" where
  "below hi v = (case v of JRef a \<Rightarrow> a < hi | _ \<Rightarrow> True)"

definition boundedFrom :: "nat \<Rightarrow> heap \<Rightarrow> bool" where
  "boundedFrom lo h = (\<forall>a. lo \<le> a \<and> a < length h \<longrightarrow> (\<forall>b \<in> refsOf (h ! a). b < length h))"

section \<open>Sample inputs\<close>

text \<open>
  Small inputs on which the theorems below are exercised: a Result with two
  categories and budget audits, a Result without a performance category, the Result
  of an audit-only run on empty artifacts, and collaborators around them.
\<close>

definition samplePerformance :: "auditRef category" where
  "samplePerformance =
     \<lparr>categoryId = ''performance'', title = ''Performance'', categoryScore = Some (1 / 2),
      auditRefs =
        [\<lparr>id = ''first-contentful-paint'', weight = 3\<rparr>,
         \<lparr>id = ''performance-budget'', weight = 0\<rparr>,
         \<lparr>id = ''timing-budget'', weight = 0\<rparr>,
         \<lparr>id = ''final-screenshot'', weight = 0\<rparr>]\<rparr>"

definition sampleAudit :: audit where
  "sampleAudit =
     \<lparr>score = Some 0, scoreDisplayMode = ''error'', warnings = None,
      errorMessage = Some ''Required traces gatherer did not run.'', details = None\<rparr>"

definition sampleLhr :: lhr where
  "sampleLhr =
     \<lparr>categories =
        [''performance'' \<mapsto> samplePerformance,
         ''seo'' \<mapsto> \<lparr>categoryId = ''seo'', title = ''SEO'', categoryScore = None,
                      auditRefs = [\<lparr>id = ''font-size'', weight = 1\<rparr>]\<rparr>],
      audits =
        [''first-contentful-paint'' \<mapsto> sampleAudit,
         ''performance-budget'' \<mapsto> sampleAudit,
         ''timing-budget'' \<mapsto> sampleAudit,
         ''font-display'' \<mapsto> sampleAudit,
         ''offscreen-images'' \<mapsto> sampleAudit,
         ''apple-touch-icon'' \<mapsto> sampleAudit]\<rparr>"

definition noPerformanceLhr :: lhr where
  "noPerformanceLhr = \<lparr>categories = Map.empty, audits = Map.empty\<rparr>"

definition sampleErrorLhr :: lhr where
  "sampleErrorLhr =
     sampleLhr\<lparr>categories := [''performance'' \<mapsto> samplePerformance\<lparr>categoryScore := None\<rparr>]\<rparr>"

definition titleOf :: "lhr \<Rightarrow> string \<Rightarrow> string" where
  "titleOf lhr key = (case categories lhr key of None \<Rightarrow> ''-'' | Some c \<Rightarrow> title c)"

text \<open>
  A locale swapper that marks the titles with the locale, a renderer and a serializer
  that show the titles of the performance and the plugin category, and a substitution
  that appends the replacements to the template.
\<close>

definition sampleEnv :: "unit env" where
  "sampleEnv =
     \<lparr>LH_ROOT = ''/lh'',
      artifactsJson = ''{}'',
      lighthouse = (\<lambda>url auditMode fs.
         case fs (segments auditMode @ [''artifacts.json'']) of
           Some (File content) \<Rightarrow> Inr (Some \<lparr>runner_lhr = sampleErrorLhr\<rparr>)
         | _ \<Rightarrow> Inl (Thrown ''no artifacts'')),
      swapLocale = (\<lambda>lhr locale.
         Inr (lhr\<lparr>categories :=
           (\<lambda>k. map_option (\<lambda>c. c\<lparr>title := locale @ '':'' @ title c\<rparr>) (categories lhr k))\<rparr>)),
      generateReportHtml = (\<lambda>lhr.
         Inr (''<div class='' @ [CHR 0x22] @ ''lh-root lh-vars'' @ [CHR 0x22] @ ''>'' @
              titleOf lhr ''performance'' @ '' '' @ titleOf lhr ''lighthouse-plugin-someplugin'' @
              ''</div>'')),
      sanitizeJson = (\<lambda>lhr. Inr (titleOf lhr ''performance'')),
      replaceStrings = (\<lambda>source replacements. source @ concat (map snd replacements)),
      REPORT_CSS = ''css''\<rparr>"

definition throwingEnv :: "unit env" where
  "throwingEnv = sampleEnv\<lparr>lighthouse := (\<lambda>url auditMode fs. Inl (Thrown ''audit run failed''))\<rparr>"

definition undefinedEnv :: "unit env" where
  "undefinedEnv = sampleEnv\<lparr>lighthouse := (\<lambda>url auditMode fs. Inr None)\<rparr>"

definition sampleFs :: fs where
  "sampleFs =
     [[] \<mapsto> Dir,
      [''lh''] \<mapsto> Dir,
      [''lh'', ''report''] \<mapsto> Dir,
      [''lh'', ''report'', ''test-assets''] \<mapsto> Dir,
      [''lh'', ''report'', ''test-assets'', ''faux-psi-template.html''] \<mapsto> File ''<html>'',
      [''lh'', ''report'', ''test-assets'', ''faux-psi.js''] \<mapsto> File ''faux'',
      [''lh'', ''dist''] \<mapsto> Dir,
      [''lh'', ''dist'', ''report''] \<mapsto> Dir,
      [''lh'', ''dist'', ''report'', ''psi.js''] \<mapsto> File ''psi'']"

definition sampleState :: "unit state" where
  "sampleState = \<lparr>lhr_var = sampleLhr, files = sampleFs, console = []\<rparr>"

definition sampleScreenshotRef :: "string \<Rightarrow> report_auditRef" where
  "sampleScreenshotRef mode =
     \<lparr>id = ''final-screenshot'', weight = 0,
      result = Some \<lparr>score = Some 1, scoreDisplayMode = mode, warnings = None,
                     errorMessage = None,
                     details = Some \<lparr>type = ''screenshot'', data = Some ''abc''\<rparr>\<rparr>\<rparr>"

definition sampleReportCategory :: "string \<Rightarrow> report_auditRef category" where
  "sampleReportCategory mode =
     \<lparr>categoryId = ''performance'', title = ''Performance'', categoryScore = Some 1,
      auditRefs = [\<lparr>id = ''interactive'', weight = 5, result = None\<rparr>,
                   sampleScreenshotRef mode]\<rparr>"

definition sampleHeap :: heap where
  "sampleHeap =
     [JObject [(''categories'', JRef 1), (''audits'', JRef 4)],
      JObject [(''performance'', JRef 2), (''seo'', JRef 5)],
      JObject [(''id'', JString ''performance''), (''score'', JNumber (1 / 2)), (''auditRefs'', JRef 3)],
      JArray [JRef 6, JRef 7],
      JObject [(''performance-budget'', JRef 8), (''first-contentful-paint'', JRef 9)],
      JObject [(''id'', JString ''seo''), (''score'', JNull), (''auditRefs'', JRef 10)],
      JObject [(''id'', JString ''first-contentful-paint''), (''weight'', JNumber 3)],
      JObject [(''id'', JString ''performance-budget''), (''weight'', JNumber 0)],
      JObject [(''score'', JNull), (''errorMessage'', JUndefined)],
      JObject [(''score'', JNumber 1)],
      JArray []]"

section \<open>Strings and lists\<close>

lemma js_of_not_Null: "js_of v \<noteq> Null"
  by (cases v) (simp_all add: js_of_def)

lemma find_SomeD: "find P xs = Some x \<Longrightarrow> x \<in> set xs \<and> P x"
  by (induction xs) (auto split: if_splits)

lemma endsWith_suffix: "endsWith s t = suffix t s"
proof
  assume "endsWith s t"
  then have "s = take (length s - length t) s @ t"
    by (metis append_take_drop_id endsWith_def)
  then show "suffix t s" by (metis suffixI)
next
  assume "suffix t s"
  then obtain u where "s = u @ t" by (auto simp: suffix_def)
  then show "endsWith s t" by (simp add: endsWith_def)
qed

lemma splitOn_not_Nil: "splitOn sep s \<noteq> []"
  by (induction s) (auto split: list.splits)

lemma splitOn_append: "splitOn sep (a @ sep # b) = splitOn sep a @ splitOn sep b"
proof (induction a)
  case Nil
  show ?case by simp
next
  case (Cons c a)
  show ?case
  proof (cases "splitOn sep a")
    case Nil
    then show ?thesis using splitOn_not_Nil by blast
  next
    case (Cons seg segs)
    then show ?thesis using Cons.IH by simp
  qed
qed

lemma splitOn_no_sep: "sep \<notin> set s \<Longrightarrow> splitOn sep s = [s]"
  by (induction s) auto

lemma segments_append: "segments (a @ CHR ''/'' # b) = segments a @ segments b"
  by (simp add: segments_def splitOn_append)

lemma segments_name: "CHR ''/'' \<notin> set s \<Longrightarrow> s \<noteq> [] \<Longrightarrow> segments s = [s]"
  by (simp add: segments_def splitOn_no_sep)

lemma segments_Nil: "segments [] = []"
  by (simp add: segments_def)

section \<open>The file system operations\<close>

lemma segments_TMP: "segments (TMP env) = segments (DIST env) @ [''.tmp'']"
proof -
  have "TMP env = (DIST env @ CHR ''/'' # ''.tmp'') @ CHR ''/'' # []"
    by (simp add: TMP_def)
  then have "segments (TMP env) = segments (DIST env @ CHR ''/'' # ''.tmp'') @ segments []"
    using segments_append by metis
  then show ?thesis
    by (simp add: segments_append segments_name segments_Nil)
qed

lemma segments_artifacts:
  "segments (TMP env @ ''/artifacts.json'') = segments (TMP env) @ [''artifacts.json'']"
proof -
  have "TMP env @ ''/artifacts.json'' = TMP env @ CHR ''/'' # ''artifacts.json''" by simp
  then show ?thesis
    by (simp only: segments_append) (simp add: segments_name)
qed

lemma mkdirSync_Inr:
  "mkdirSync fs p = Inr fs' \<Longrightarrow> fs' = (\<lambda>q. if prefix q (segments p) then Some Dir else fs q)"
  by (simp add: mkdirSync_def Let_def split: if_splits)

lemma writeFileSync_Inr:
  "writeFileSync fs p c = Inr fs' \<Longrightarrow> fs' = fs(segments p \<mapsto> File c)"
  by (auto simp: writeFileSync_def Let_def split: if_splits option.splits node.splits)

lemma rmdirSync_Dir:
  "fs (segments p) = Some Dir \<Longrightarrow>
     rmdirSync fs p = Inr (\<lambda>q. if prefix (segments p) q then None else fs q)"
  by (simp add: rmdirSync_def)

lemma scratch_present:
  assumes "mkdirSync fs0 (TMP env) = Inr fs1"
    and "writeFileSync fs1 (TMP env @ ''/artifacts.json'') c = Inr fs2"
  shows "fs2 (segments (TMP env)) = Some Dir"
    and "fs2 (segments (TMP env) @ [''artifacts.json'']) = Some (File c)"
  using mkdirSync_Inr [OF assms(1)] writeFileSync_Inr [OF assms(2)]
  by (simp_all add: segments_artifacts)

section \<open>The single-category trim\<close>

text \<open>
  C2, as amended. The trim is defined exactly on the Results that have a
  \<open>performance\<close> category: there it returns a Result whose only category key is
  \<open>performance\<close>; on a Result without that key it raises a TypeError, since it reads
  \<open>auditRefs\<close> of \<open>undefined\<close>.
\<close>

theorem tweakLhrForPsi_defined:
  "(categories lhr ''performance'' \<noteq> None \<longrightarrow>
      (\<exists>r. tweakLhrForPsi lhr = Inr r \<and> dom (categories r) = {''performance''})) \<and>
   (categories lhr ''performance'' = None \<longrightarrow> tweakLhrForPsi lhr = Inl TypeError)"
  by (auto simp: tweakLhrForPsi_def)

theorem tweakLhrForPsi_defined_witness:
  "(\<exists>r. tweakLhrForPsi sampleLhr = Inr r \<and> dom (categories r) = {''performance''}) \<and>
   tweakLhrForPsi noPerformanceLhr = Inl TypeError"
proof -
  have "categories sampleLhr ''performance'' \<noteq> None"
    by (simp add: sampleLhr_def)
  moreover have "categories noPerformanceLhr ''performance'' = None"
    by (simp add: noPerformanceLhr_def)
  ultimately show ?thesis
    using tweakLhrForPsi_defined [of sampleLhr] tweakLhrForPsi_defined [of noPerformanceLhr]
    by blast
qed

text \<open>
  C2, as stated, fails: the trim of a Result with no \<open>performance\<close> category returns
  no Result.
\<close>

theorem tweakLhrForPsi_total_counterexample:
  "\<not> (\<exists>r. tweakLhrForPsi noPerformanceLhr = Inr r)"
  by (simp add: tweakLhrForPsi_def noPerformanceLhr_def)

text \<open>
  C4. For a Result with a \<open>performance\<close> category the trim returns a Result with no
  \<open>performance-budget\<close> audit, whose only category key is \<open>performance\<close>, and in whose
  performance category no audit reference has an id ending in \<open>-budget\<close>.
\<close>

theorem tweakLhrForPsi_no_budget:
  assumes "categories lhr ''performance'' = Some p"
  shows "\<exists>r p'. tweakLhrForPsi lhr = Inr r \<and>
           audits r ''performance-budget'' = None \<and>
           dom (categories r) = {''performance''} \<and>
           categories r ''performance'' = Some p' \<and>
           (\<forall>a \<in> set (auditRefs p'). \<not> suffix ''-budget'' (id a))"
  using assms by (simp add: tweakLhrForPsi_def endsWith_suffix)

theorem tweakLhrForPsi_no_budget_witness:
  "categories sampleLhr ''performance'' = Some samplePerformance \<and>
   (\<exists>r p'. tweakLhrForPsi sampleLhr = Inr r \<and>
           audits r ''performance-budget'' = None \<and>
           dom (categories r) = {''performance''} \<and>
           categories r ''performance'' = Some p' \<and>
           (\<forall>a \<in> set (auditRefs p'). \<not> suffix ''-budget'' (id a)))"
proof -
  have h: "categories sampleLhr ''performance'' = Some samplePerformance"
    by (simp add: sampleLhr_def)
  show ?thesis using h tweakLhrForPsi_no_budget [OF h] by simp
qed

text \<open>
  C5. The trim is idempotent: on a Result with a \<open>performance\<close> category it returns a
  Result that a second trim returns unchanged (so with the same categories and the
  same list of audit references).
\<close>

theorem tweakLhrForPsi_idempotent:
  assumes "categories lhr ''performance'' = Some p"
  shows "\<exists>r. tweakLhrForPsi lhr = Inr r \<and> tweakLhrForPsi r = Inr r"
  using assms by (simp add: tweakLhrForPsi_def fun_upd_idem)

theorem tweakLhrForPsi_idempotent_witness:
  "categories sampleLhr ''performance'' = Some samplePerformance \<and>
   (\<exists>r. tweakLhrForPsi sampleLhr = Inr r \<and> tweakLhrForPsi r = Inr r)"
proof -
  have h: "categories sampleLhr ''performance'' = Some samplePerformance"
    by (simp add: sampleLhr_def)
  show ?thesis using h tweakLhrForPsi_idempotent [OF h] by simp
qed

section \<open>The final screenshot\<close>

text \<open>
  C7. \<open>_getFinalScreenshot\<close> returns \<open>null\<close> exactly when the category has no audit
  reference with id \<open>final-screenshot\<close>, or the first such reference has no result, or
  its result's scoreDisplayMode is \<open>error\<close>, or its result has no details, or details
  of a type other than \<open>screenshot\<close>; otherwise it returns the data of the details.
\<close>

theorem getFinalScreenshot_null_iff:
  "(getFinalScreenshot perfCategory = Null) =
     ((\<forall>r \<in> set (auditRefs perfCategory). id r \<noteq> ''final-screenshot'') \<or>
      (\<exists>ref. find (\<lambda>a. id a = ''final-screenshot'') (auditRefs perfCategory) = Some ref \<and>
         (result ref = None \<or>
          (\<exists>res. result ref = Some res \<and>
             (scoreDisplayMode res = ''error'' \<or> details res = None \<or>
              (\<exists>d. details res = Some d \<and> type d \<noteq> ''screenshot''))))))
   \<and> (\<forall>ref res d.
         find (\<lambda>a. id a = ''final-screenshot'') (auditRefs perfCategory) = Some ref \<and>
         result ref = Some res \<and> scoreDisplayMode res \<noteq> ''error'' \<and>
         details res = Some d \<and> type d = ''screenshot''
         \<longrightarrow> getFinalScreenshot perfCategory = js_of (data d))"
  by (auto simp: getFinalScreenshot_def js_of_not_Null find_None_iff split: option.splits
      dest: find_SomeD)

theorem getFinalScreenshot_null_iff_witness:
  "getFinalScreenshot (sampleReportCategory ''error'') = Null \<and>
   getFinalScreenshot (sampleReportCategory ''binary'') = Str ''abc''"
proof -
  have f: "find (\<lambda>a. id a = ''final-screenshot'') (auditRefs (sampleReportCategory mode))
             = Some (sampleScreenshotRef mode)" for mode
    by (simp add: sampleReportCategory_def sampleScreenshotRef_def)
  have "getFinalScreenshot (sampleReportCategory ''error'') = Null"
    using getFinalScreenshot_null_iff [of "sampleReportCategory ''error''"] f [of "''error''"]
    by (simp add: sampleScreenshotRef_def)
  moreover have "getFinalScreenshot (sampleReportCategory ''binary'') = Str ''abc''"
    using getFinalScreenshot_null_iff [of "sampleReportCategory ''binary''"] f [of "''binary''"]
    by (simp add: sampleScreenshotRef_def js_of_def)
  ultimately show ?thesis by simp
qed

section \<open>The synthetic error-path builder\<close>

lemma segments_TMP_sample: "segments (TMP sampleEnv) = [''lh'', ''dist'', ''now'', ''.tmp'']"
  by (simp add: TMP_def DIST_def sampleEnv_def segments_def)

lemma TMP_envs: "TMP throwingEnv = TMP sampleEnv" "TMP undefinedEnv = TMP sampleEnv"
  by (simp_all add: TMP_def DIST_def throwingEnv_def undefinedEnv_def)

lemma artifactsJson_envs:
  "artifactsJson throwingEnv = artifactsJson sampleEnv"
  "artifactsJson undefinedEnv = artifactsJson sampleEnv"
  by (simp_all add: throwingEnv_def undefinedEnv_def)

lemma lighthouse_sampleEnv:
  "fs (segments auditMode @ [''artifacts.json'']) = Some (File c) \<Longrightarrow>
     lighthouse sampleEnv url auditMode fs = Inr (Some \<lparr>runner_lhr = sampleErrorLhr\<rparr>)"
  by (simp add: sampleEnv_def)

lemma sample_scratch:
  "\<exists>fs1 fs2. mkdirSync Map.empty (TMP sampleEnv) = Inr fs1 \<and>
     writeFileSync fs1 (TMP sampleEnv @ ''/artifacts.json'') c = Inr fs2"
proof -
  have mk: "mkdirSync Map.empty (TMP sampleEnv) =
      Inr (\<lambda>q. if prefix q (segments (TMP sampleEnv)) then Some Dir else None)"
    by (simp add: mkdirSync_def isFile_def list_ex_iff)
  have "writeFileSync (\<lambda>q. if prefix q (segments (TMP sampleEnv)) then Some Dir else None)
      (TMP sampleEnv @ ''/artifacts.json'') c =
     Inr ((\<lambda>q. if prefix q (segments (TMP sampleEnv)) then Some Dir else None)
            (segments (TMP sampleEnv) @ [''artifacts.json''] \<mapsto> File c))"
    by (simp add: writeFileSync_def segments_artifacts)
  with mk show ?thesis by simp
qed

lemma generateErrorLHR_sample:
  "\<exists>r fs'. generateErrorLHR sampleEnv Map.empty = (Inr r, fs')"
proof -
  obtain fs1 fs2 where mk: "mkdirSync Map.empty (TMP sampleEnv) = Inr fs1"
    and wr: "writeFileSync fs1 (TMP sampleEnv @ ''/artifacts.json'') (artifactsJson sampleEnv) = Inr fs2"
    using sample_scratch by blast
  note sp = scratch_present [OF mk wr]
  have lh: "lighthouse sampleEnv ''http://fakeurl.com'' (TMP sampleEnv) fs2 =
      Inr (Some \<lparr>runner_lhr = sampleErrorLhr\<rparr>)"
    using sp(2) by (rule lighthouse_sampleEnv)
  have "\<exists>fs3. rmdirSync fs2 (TMP sampleEnv) = Inr fs3"
    using rmdirSync_Dir [of fs2 "TMP sampleEnv"] sp(1) by simp
  then obtain fs3 where rm: "rmdirSync fs2 (TMP sampleEnv) = Inr fs3" ..
  show ?thesis
    by (simp add: generateErrorLHR_def mk wr lh rm sampleErrorLhr_def sampleLhr_def)
qed

lemma generateErrorLHR_throwing:
  "\<exists>fs'. generateErrorLHR throwingEnv Map.empty = (Inl (Thrown ''audit run failed''), fs')"
  and mkdirSync_throwing: "\<exists>fs1. mkdirSync Map.empty (TMP throwingEnv) = Inr fs1"
proof -
  obtain fs1 fs2 where mk: "mkdirSync Map.empty (TMP sampleEnv) = Inr fs1"
    and wr: "writeFileSync fs1 (TMP sampleEnv @ ''/artifacts.json'') (artifactsJson sampleEnv) = Inr fs2"
    using sample_scratch by blast
  have lh: "lighthouse throwingEnv url dir fs = Inl (Thrown ''audit run failed'')" for url dir fs
    by (simp add: throwingEnv_def)
  show "\<exists>fs'. generateErrorLHR throwingEnv Map.empty = (Inl (Thrown ''audit run failed''), fs')"
    by (simp add: generateErrorLHR_def TMP_envs artifactsJson_envs mk wr lh)
  show "\<exists>fs1. mkdirSync Map.empty (TMP throwingEnv) = Inr fs1"
    using mk by (simp add: TMP_envs)
qed

lemma generateErrorLHR_undefined:
  "\<exists>fs'. generateErrorLHR undefinedEnv Map.empty =
      (Inl (Error ''Failed to run lighthouse on empty artifacts''), fs')"
  and mkdirSync_undefined: "\<exists>fs1. mkdirSync Map.empty (TMP undefinedEnv) = Inr fs1"
proof -
  obtain fs1 fs2 where mk: "mkdirSync Map.empty (TMP sampleEnv) = Inr fs1"
    and wr: "writeFileSync fs1 (TMP sampleEnv @ ''/artifacts.json'') (artifactsJson sampleEnv) = Inr fs2"
    using sample_scratch by blast
  have lh: "lighthouse undefinedEnv url dir fs = Inr None" for url dir fs
    by (simp add: undefinedEnv_def)
  show "\<exists>fs'. generateErrorLHR undefinedEnv Map.empty =
      (Inl (Error ''Failed to run lighthouse on empty artifacts''), fs')"
    by (simp add: generateErrorLHR_def TMP_envs artifactsJson_envs mk wr lh)
  show "\<exists>fs1. mkdirSync Map.empty (TMP undefinedEnv) = Inr fs1"
    using mk by (simp add: TMP_envs)
qed

lemma generateErrorLHR_returns_removed:
  assumes "generateErrorLHR env fs = (Inr r, fs')" and "prefix (segments (TMP env)) q"
  shows "fs' q = None"
proof -
  from assms(1) obtain fs2 where "rmdirSync fs2 (TMP env) = Inr fs'"
    by (auto simp: generateErrorLHR_def Let_def split: sum.splits option.splits)
  then show ?thesis using assms(2)
    by (auto simp: rmdirSync_def Let_def split: option.splits node.splits)
qed

lemma generateErrorLHR_raises_kept:
  assumes run: "generateErrorLHR env fs = (Inl e, fs')"
    and mk: "mkdirSync fs (TMP env) = Inr fs1"
  shows "fs' (segments (TMP env)) = Some Dir"
proof -
  have d1: "fs1 (segments (TMP env)) = Some Dir"
    using mkdirSync_Inr [OF mk] by simp
  show ?thesis
  proof (cases "writeFileSync fs1 (TMP env @ ''/artifacts.json'') (artifactsJson env)")
    case (Inl e')
    then show ?thesis using run mk d1 by (simp add: generateErrorLHR_def)
  next
    case (Inr fs2)
    have d2: "fs2 (segments (TMP env)) = Some Dir"
      using scratch_present(1) [OF mk Inr] .
    have rm: "\<exists>fs3. rmdirSync fs2 (TMP env) = Inr fs3"
      using rmdirSync_Dir [of fs2 "TMP env"] d2 by simp
    show ?thesis using run mk Inr d2 rm
      by (auto simp: generateErrorLHR_def Let_def split: sum.splits option.splits)
  qed
qed

text \<open>
  C1, as amended. When \<open>generateErrorLHR\<close> returns a Result, the scratch directory and
  everything below it have been removed. There is no cleanup on the other exits: when
  the builder raises after it has created the scratch directory (the executor threw, or
  returned \<open>undefined\<close>, or an audit was missing), the error escapes with the scratch
  directory still in place.
\<close>

theorem generateErrorLHR_scratch:
  "(\<forall>r fs'. generateErrorLHR env fs = (Inr r, fs') \<longrightarrow>
      (\<forall>q. prefix (segments (TMP env)) q \<longrightarrow> fs' q = None)) \<and>
   (\<forall>e fs' fs1. generateErrorLHR env fs = (Inl e, fs') \<and> mkdirSync fs (TMP env) = Inr fs1 \<longrightarrow>
      fs' (segments (TMP env)) = Some Dir)"
  using generateErrorLHR_returns_removed generateErrorLHR_raises_kept by blast

theorem generateErrorLHR_scratch_witness:
  "(\<exists>r. fst (generateErrorLHR sampleEnv Map.empty) = Inr r) \<and>
   snd (generateErrorLHR sampleEnv Map.empty) (segments (TMP sampleEnv)) = None \<and>
   snd (generateErrorLHR sampleEnv Map.empty) (segments (TMP sampleEnv) @ [''artifacts.json'']) = None \<and>
   fst (generateErrorLHR undefinedEnv Map.empty) =
     Inl (Error ''Failed to run lighthouse on empty artifacts'') \<and>
   snd (generateErrorLHR undefinedEnv Map.empty) (segments (TMP undefinedEnv)) = Some Dir"
proof -
  obtain r fs' where ok: "generateErrorLHR sampleEnv Map.empty = (Inr r, fs')"
    using generateErrorLHR_sample by blast
  obtain fs'' where bad: "generateErrorLHR undefinedEnv Map.empty =
      (Inl (Error ''Failed to run lighthouse on empty artifacts''), fs'')"
    using generateErrorLHR_undefined by blast
  obtain fs1 where mk: "mkdirSync Map.empty (TMP undefinedEnv) = Inr fs1"
    using mkdirSync_undefined by blast
  have "fs' (segments (TMP sampleEnv)) = None"
    and "fs' (segments (TMP sampleEnv) @ [''artifacts.json'']) = None"
    using generateErrorLHR_scratch [of sampleEnv Map.empty] ok by simp_all
  moreover have "fs'' (segments (TMP undefinedEnv)) = Some Dir"
    using generateErrorLHR_scratch [of undefinedEnv Map.empty] bad mk by blast
  ultimately show ?thesis by (simp add: ok bad)
qed

text \<open>
  C1, as stated, fails: with an executor that throws, the error leaves the builder
  while the scratch directory is still there.
\<close>

theorem generateErrorLHR_cleanup_counterexample:
  "fst (generateErrorLHR throwingEnv Map.empty) = Inl (Thrown ''audit run failed'') \<and>
   snd (generateErrorLHR throwingEnv Map.empty) (segments (TMP throwingEnv)) = Some Dir"
proof -
  obtain fs' where bad: "generateErrorLHR throwingEnv Map.empty =
      (Inl (Thrown ''audit run failed''), fs')"
    using generateErrorLHR_throwing by blast
  obtain fs1 where mk: "mkdirSync Map.empty (TMP throwingEnv) = Inr fs1"
    using mkdirSync_throwing by blast
  show ?thesis using generateErrorLHR_raises_kept [OF bad mk] by (simp add: bad)
qed

text \<open>
  C8. When \<open>generateErrorLHR\<close> returns a Result, its \<open>offscreen-images\<close> and
  \<open>apple-touch-icon\<close> audits have score 1, scoreDisplayMode \<open>binary\<close>, no errorMessage
  and one warning each; its \<open>font-display\<close> audit is the executor's with the warnings
  replaced by the two fixed strings, so its score is as the executor left it.
\<close>

theorem generateErrorLHR_audits:
  assumes "generateErrorLHR env fs = (Inr r, fs')"
  shows "\<exists>fs2 rr fd oi ati.
           lighthouse env ''http://fakeurl.com'' (TMP env) fs2 = Inr (Some rr) \<and>
           audits (runner_lhr rr) ''font-display'' = Some fd \<and>
           audits r ''font-display'' = Some (fd\<lparr>warnings := Some fontDisplayWarnings\<rparr>) \<and>
           length fontDisplayWarnings = 2 \<and>
           audits r ''offscreen-images'' = Some oi \<and>
           score oi = Some 1 \<and> scoreDisplayMode oi = ''binary'' \<and> errorMessage oi = None \<and>
           map_option length (warnings oi) = Some 1 \<and>
           audits r ''apple-touch-icon'' = Some ati \<and>
           score ati = Some 1 \<and> scoreDisplayMode ati = ''binary'' \<and> errorMessage ati = None \<and>
           map_option length (warnings ati) = Some 1"
proof -
  from assms obtain fs2 rr fd oi ati where
    lh: "lighthouse env ''http://fakeurl.com'' (TMP env) fs2 = Inr (Some rr)"
    and fd: "audits (runner_lhr rr) ''font-display'' = Some fd"
    and r: "audits r = (audits (runner_lhr rr))
        (''font-display'' \<mapsto> fd\<lparr>warnings := Some fontDisplayWarnings\<rparr>,
         ''offscreen-images'' \<mapsto> oi\<lparr>
            warnings := Some [''Invalid image sizing information: https://cdn.cnn.com/cnn/.e1mo/img/4.0/vr/vr_new_asset.png''],
            errorMessage := None, scoreDisplayMode := ''binary'', score := Some 1\<rparr>,
         ''apple-touch-icon'' \<mapsto> ati\<lparr>
            warnings := Some [''`apple-touch-icon-precomposed` is out of date; `apple-touch-icon` is preferred.''],
            errorMessage := None, scoreDisplayMode := ''binary'', score := Some 1\<rparr>)"
    by (auto simp: generateErrorLHR_def Let_def split: sum.splits option.splits if_splits)
  have len: "length fontDisplayWarnings = 2"
    by (simp add: fontDisplayWarnings_def)
  have a1: "audits r ''font-display'' = Some (fd\<lparr>warnings := Some fontDisplayWarnings\<rparr>)"
    by (simp add: r)
  have a2: "\<exists>a. audits r ''offscreen-images'' = Some a \<and>
      score a = Some 1 \<and> scoreDisplayMode a = ''binary'' \<and> errorMessage a = None \<and>
      map_option length (warnings a) = Some 1"
    by (simp add: r)
  have a3: "\<exists>a. audits r ''apple-touch-icon'' = Some a \<and>
      score a = Some 1 \<and> scoreDisplayMode a = ''binary'' \<and> errorMessage a = None \<and>
      map_option length (warnings a) = Some 1"
    by (simp add: r)
  from lh fd a1 len a2 a3 show ?thesis by blast
qed

theorem generateErrorLHR_audits_witness:
  "\<exists>r fs'. generateErrorLHR sampleEnv Map.empty = (Inr r, fs') \<and>
     (\<exists>oi. audits r ''offscreen-images'' = Some oi \<and>
        score oi = Some 1 \<and> scoreDisplayMode oi = ''binary'' \<and> errorMessage oi = None \<and>
        map_option length (warnings oi) = Some 1) \<and>
     (\<exists>ati. audits r ''apple-touch-icon'' = Some ati \<and>
        score ati = Some 1 \<and> scoreDisplayMode ati = ''binary'' \<and> errorMessage ati = None \<and>
        map_option length (warnings ati) = Some 1) \<and>
     (\<exists>fd. audits r ''font-display'' = Some fd \<and> warnings fd = Some fontDisplayWarnings)"
proof -
  obtain r fs' where ok: "generateErrorLHR sampleEnv Map.empty = (Inr r, fs')"
    using generateErrorLHR_sample by blast
  from generateErrorLHR_audits [OF ok] obtain fd oi ati where
    "audits r ''font-display'' = Some (fd\<lparr>warnings := Some fontDisplayWarnings\<rparr>)"
    "audits r ''offscreen-images'' = Some oi \<and>
       score oi = Some 1 \<and> scoreDisplayMode oi = ''binary'' \<and> errorMessage oi = None \<and>
       map_option length (warnings oi) = Some 1"
    "audits r ''apple-touch-icon'' = Some ati \<and>
       score ati = Some 1 \<and> scoreDisplayMode ati = ''binary'' \<and> errorMessage ati = None \<and>
       map_option length (warnings ati) = Some 1"
    by blast
  with ok show ?thesis by simp
qed

section \<open>The orchestrator\<close>

lemma forVariants_flat:
  "forVariants env s f l vs = writeReports env s (map (\<lambda>v. (f, l, v)) vs)"
  by (induction vs arbitrary: s) (auto split: prod.splits sum.splits)

lemma writeReports_append:
  "writeReports env s (xs @ ys) =
     (case writeReports env s xs of
        (Inl e, s') \<Rightarrow> (Inl e, s')
      | (Inr u, s') \<Rightarrow> writeReports env s' ys)"
  by (induction xs arbitrary: s) (auto split: prod.splits sum.splits)

lemma forEachEntry_flat: "forEachEntry env s es = writeReports env s (stepsOf es)"
proof (induction es arbitrary: s)
  case Nil
  show ?case by (simp add: stepsOf_def)
next
  case (Cons a es)
  obtain f l where a: "a = (f, l)" by (cases a)
  have "stepsOf (a # es) = map (\<lambda>v. (f, l, v)) variants @ stepsOf es"
    by (simp add: stepsOf_def a)
  then show ?case
    by (simp add: a writeReports_append forVariants_flat Cons.IH split: prod.splits sum.splits)
qed

lemma mkdirSync_Inr_iff:
  "mkdirSync fs p = Inr fs' \<longleftrightarrow>
     (\<forall>q. prefix q (segments p) \<longrightarrow> \<not> isFile (fs q)) \<and>
     fs' = (\<lambda>q. if prefix q (segments p) then Some Dir else fs q)"
  by (auto simp: mkdirSync_def Let_def list_ex_iff in_set_prefixes)

lemma writeReport_Inr:
  assumes "writeReport env s f l v = (Inr u, s')"
  shows "\<exists>html. reportHtml env s v l = Inr html \<and>
           s' = s\<lparr>files := (\<lambda>q. if prefix q (segments (dirname (filepathOf env v f)))
                              then Some Dir else files s q)
                           (segments (filepathOf env v f) \<mapsto> File html),
                  console := console s @ [writtenLine (filepathOf env v f)]\<rparr>"
    and "\<forall>q. prefix q (segments (dirname (filepathOf env v f))) \<longrightarrow> \<not> isFile (files s q)"
proof -
  from assms obtain html fs1 fs2 where
    h: "reportHtml env s v l = Inr html"
    and mk: "mkdirSync (files s) (dirname (filepathOf env v f)) = Inr fs1"
    and wr: "writeFileSync fs1 (filepathOf env v f) html = Inr fs2"
    and s': "s' = s\<lparr>files := fs2, console := console s @ [writtenLine (filepathOf env v f)]\<rparr>"
    by (auto simp: writeReport_def Let_def split: sum.splits)
  from mk show "\<forall>q. prefix q (segments (dirname (filepathOf env v f))) \<longrightarrow> \<not> isFile (files s q)"
    by (simp add: mkdirSync_Inr_iff)
  from mk wr h s' show "\<exists>html. reportHtml env s v l = Inr html \<and>
           s' = s\<lparr>files := (\<lambda>q. if prefix q (segments (dirname (filepathOf env v f)))
                              then Some Dir else files s q)
                           (segments (filepathOf env v f) \<mapsto> File html),
                  console := console s @ [writtenLine (filepathOf env v f)]\<rparr>"
    using mkdirSync_Inr [OF mk] writeFileSync_Inr [OF wr] by simp
qed

lemma writeReport_frame:
  assumes "writeReport env s f l v = (Inr u, s')"
  shows "lhr_var s' = lhr_var s"
    and "console s' = console s @ [writtenLine (filepathOf env v f)]"
    and "files s q = Some (File c) \<Longrightarrow> q \<noteq> segments (filepathOf env v f) \<Longrightarrow>
           files s' q = Some (File c)"
    and "files s' q = Some (File c) \<Longrightarrow>
           q = segments (filepathOf env v f) \<or> files s q = Some (File c)"
    and "\<exists>html. reportHtml env s v l = Inr html \<and>
           files s' (segments (filepathOf env v f)) = Some (File html)"
  using writeReport_Inr [OF assms]
  by (auto simp: isFile_def split: if_splits)

lemma writeReports_frame:
  assumes "writeReports env s steps = (Inr u, s')"
  shows "lhr_var s' = lhr_var s"
    and "console s' = console s @ map (\<lambda>(f, l, v). writtenLine (filepathOf env v f)) steps"
    and "files s q = Some (File c) \<Longrightarrow> q \<notin> set (map (stepPath env) steps) \<Longrightarrow>
           files s' q = Some (File c)"
    and "files s' q = Some (File c) \<Longrightarrow>
           q \<in> set (map (stepPath env) steps) \<or> files s q = Some (File c)"
  using assms
proof (induction steps arbitrary: s)
  case Nil
  { case 1 then show ?case by simp }
  { case 2 then show ?case by simp }
  { case 3 then show ?case by simp }
  { case 4 then show ?case by simp }
next
  case (Cons st steps)
  obtain f l v where st: "st = (f, l, v)" by (cases st)
  { case 1
    then obtain s1 where a: "writeReport env s f l v = (Inr (), s1)"
      and b: "writeReports env s1 steps = (Inr u, s')"
      by (auto simp: st split: prod.splits sum.splits)
    show ?case using Cons.IH(1) [OF b] writeReport_frame(1) [OF a] by simp }
  { case 2
    then obtain s1 where a: "writeReport env s f l v = (Inr (), s1)"
      and b: "writeReports env s1 steps = (Inr u, s')"
      by (auto simp: st split: prod.splits sum.splits)
    show ?case using Cons.IH(2) [OF b] writeReport_frame(2) [OF a] by (simp add: st) }
  { case 3
    then obtain s1 where a: "writeReport env s f l v = (Inr (), s1)"
      and b: "writeReports env s1 steps = (Inr u, s')"
      by (auto simp: st split: prod.splits sum.splits)
    from 3 have "files s1 q = Some (File c)"
      using writeReport_frame(3) [OF a] by (simp add: st stepPath_def)
    then show ?case using Cons.IH(3) [OF _ _ b] 3 by simp }
  { case 4
    then obtain s1 where a: "writeReport env s f l v = (Inr (), s1)"
      and b: "writeReports env s1 steps = (Inr u, s')"
      by (auto simp: st split: prod.splits sum.splits)
    from 4 have "q \<in> set (map (stepPath env) steps) \<or> files s1 q = Some (File c)"
      using Cons.IH(4) [OF _ b] by simp
    then show ?case using writeReport_frame(4) [OF a] by (auto simp: st stepPath_def) }
qed

lemma writeReports_written:
  assumes "writeReports env s steps = (Inr u, s')"
    and "distinct (map (stepPath env) steps)"
    and "(f, l, v) \<in> set steps"
  shows "\<exists>s1 html. lhr_var s1 = lhr_var s \<and> reportHtml env s1 v l = Inr html \<and>
           files s' (segments (filepathOf env v f)) = Some (File html)"
  using assms
proof (induction steps arbitrary: s)
  case Nil
  then show ?case by simp
next
  case (Cons st steps)
  obtain f0 l0 v0 where st: "st = (f0, l0, v0)" by (cases st)
  from Cons.prems(1) obtain s1 where a: "writeReport env s f0 l0 v0 = (Inr (), s1)"
    and b: "writeReports env s1 steps = (Inr u, s')"
    by (auto simp: st split: prod.splits sum.splits)
  show ?case
  proof (cases "(f, l, v) = st")
    case True
    from writeReport_frame(5) [OF a] obtain html where
      h: "reportHtml env s v0 l0 = Inr html"
      and w: "files s1 (segments (filepathOf env v0 f0)) = Some (File html)"
      by blast
    have "segments (filepathOf env v0 f0) \<notin> set (map (stepPath env) steps)"
      using Cons.prems(2) by (simp add: st stepPath_def)
    then have "files s' (segments (filepathOf env v0 f0)) = Some (File html)"
      using writeReports_frame(3) [OF b w] by simp
    with h True st show ?thesis by auto
  next
    case False
    then have "(f, l, v) \<in> set steps" using Cons.prems(3) by simp
    moreover have "distinct (map (stepPath env) steps)" using Cons.prems(2) by simp
    ultimately obtain s2 html where "lhr_var s2 = lhr_var s1"
      "reportHtml env s2 v l = Inr html"
      "files s' (segments (filepathOf env v f)) = Some (File html)"
      using Cons.IH [OF b] by blast
    then show ?thesis using writeReport_frame(1) [OF a] by auto
  qed
qed

lemma dirname_index: "dirname (x @ ''/index.html'') = x"
  by (simp add: dirname_def)

lemma segments_filepathOf:
  assumes "validName (v @ f)"
  shows "segments (filepathOf env v f) = segments (DIST env) @ [v @ f, ''index.html'']"
    and "segments (dirname (filepathOf env v f)) = segments (DIST env) @ [v @ f]"
proof -
  have fp: "filepathOf env v f = (DIST env @ CHR ''/'' # (v @ f)) @ ''/index.html''"
    by (simp add: filepathOf_def)
  have d: "segments (DIST env @ CHR ''/'' # (v @ f)) = segments (DIST env) @ [v @ f]"
    using assms by (simp only: segments_append) (simp add: segments_name validName_def)
  show "segments (dirname (filepathOf env v f)) = segments (DIST env) @ [v @ f]"
    by (simp only: fp dirname_index d)
  have "segments ((DIST env @ CHR ''/'' # (v @ f)) @ CHR ''/'' # ''index.html'') =
      segments (DIST env @ CHR ''/'' # (v @ f)) @ segments ''index.html''"
    by (rule segments_append)
  moreover have "segments ''index.html'' = [''index.html'']"
    by (simp add: segments_name)
  moreover have "filepathOf env v f = (DIST env @ CHR ''/'' # (v @ f)) @ CHR ''/'' # ''index.html''"
    by (simp add: filepathOf_def)
  ultimately show "segments (filepathOf env v f) = segments (DIST env) @ [v @ f, ''index.html'']"
    using d by simp
qed

lemma valid_names:
  "\<forall>f \<in> set filenames. \<forall>v \<in> set variants. validName (v @ f)"
  by (simp add: filenames_def variants_def validName_def)

lemma distinct_names:
  "distinct (concat (map (\<lambda>f. map (\<lambda>v. v @ f) variants) filenames))"
  by (simp add: filenames_def variants_def)

lemma length_expectedPaths: "length (expectedPaths env) = 18"
  by (simp add: expectedPaths_def filenames_def variants_def)

lemma expectedPaths_explicit:
  "expectedPaths env =
     concat (map (\<lambda>name.
         [DIST env @ ''/'' @ name @ ''/index.html'',
          DIST env @ ''/'' @ [CHR 0xE2, CHR 0x8C, CHR 0xA3] @ ''.cdt.'' @ name @ ''/index.html'',
          DIST env @ ''/'' @ [CHR 0xE2, CHR 0x8C, CHR 0xA3] @ ''.psi.'' @ name @ ''/index.html''])
       [''english'', ''espanol'', [CHR 0xC9, CHR 0x91] @ ''rabic'', ''xl-accented'', ''error'',
        ''single-category''])"
  by (simp add: expectedPaths_def filenames_def variants_def filepathOf_def)

lemma segments_DIST: "segments (DIST env) = segments (LH_ROOT env) @ [''dist'', ''now'']"
proof -
  have "DIST env = (LH_ROOT env @ CHR ''/'' # ''dist'') @ CHR ''/'' # ''now''"
    by (simp add: DIST_def)
  then have "segments (DIST env) = segments (LH_ROOT env @ CHR ''/'' # ''dist'') @ segments ''now''"
    by (metis segments_append)
  then show ?thesis
    by (simp add: segments_append segments_name)
qed

lemma segments_assets:
  "segments (LH_ROOT env @ ''/report/test-assets/faux-psi-template.html'') =
     segments (LH_ROOT env) @ [''report'', ''test-assets'', ''faux-psi-template.html'']"
  "segments (LH_ROOT env @ ''/dist/report/psi.js'') =
     segments (LH_ROOT env) @ [''dist'', ''report'', ''psi.js'']"
  "segments (LH_ROOT env @ ''/report/test-assets/faux-psi.js'') =
     segments (LH_ROOT env) @ [''report'', ''test-assets'', ''faux-psi.js'']"
proof -
  have a: "segments (r @ CHR ''/'' # x @ CHR ''/'' # y @ CHR ''/'' # z) =
      segments r @ segments x @ segments y @ segments z" for r x y z
    by (simp add: segments_append)
  have "segments (LH_ROOT env @ CHR ''/'' # ''report'' @ CHR ''/'' # ''test-assets'' @ CHR ''/'' #
      ''faux-psi-template.html'') =
     segments (LH_ROOT env) @ [''report'', ''test-assets'', ''faux-psi-template.html'']"
    by (simp only: a) (simp add: segments_name)
  then show "segments (LH_ROOT env @ ''/report/test-assets/faux-psi-template.html'') =
     segments (LH_ROOT env) @ [''report'', ''test-assets'', ''faux-psi-template.html'']"
    by simp
  have "segments (LH_ROOT env @ CHR ''/'' # ''dist'' @ CHR ''/'' # ''report'' @ CHR ''/'' #
      ''psi.js'') = segments (LH_ROOT env) @ [''dist'', ''report'', ''psi.js'']"
    by (simp only: a) (simp add: segments_name)
  then show "segments (LH_ROOT env @ ''/dist/report/psi.js'') =
     segments (LH_ROOT env) @ [''dist'', ''report'', ''psi.js'']"
    by simp
  have "segments (LH_ROOT env @ CHR ''/'' # ''report'' @ CHR ''/'' # ''test-assets'' @ CHR ''/'' #
      ''faux-psi.js'') =
     segments (LH_ROOT env) @ [''report'', ''test-assets'', ''faux-psi.js'']"
    by (simp only: a) (simp add: segments_name)
  then show "segments (LH_ROOT env @ ''/report/test-assets/faux-psi.js'') =
     segments (LH_ROOT env) @ [''report'', ''test-assets'', ''faux-psi.js'']"
    by simp
qed

lemma asset_not_report:
  assumes "p \<in> set (assetPaths env)"
  shows "segments p \<noteq> segments (DIST env) @ [n, ''index.html'']"
    and "\<not> prefix (segments (TMP env)) (segments p)"
  using assms
  by (auto simp: assetPaths_def segments_assets segments_DIST segments_TMP)

lemma generatePsiReportHtml_agree:
  assumes "\<forall>p \<in> set (assetPaths env). fs1 (segments p) = fs (segments p)"
  shows "generatePsiReportHtml env b fs1 = generatePsiReportHtml env b fs"
proof -
  have "readFileSync fs1 p = readFileSync fs p" if "p \<in> set (assetPaths env)" for p
    using assms that by (simp add: readFileSync_def)
  then show ?thesis
    by (simp add: generatePsiReportHtml_def assetPaths_def cong: sum.case_cong)
qed

lemma reportHtml_agree:
  assumes "lhr_var s1 = lhr_var s"
    and "\<forall>p \<in> set (assetPaths env). files s1 (segments p) = files s (segments p)"
  shows "reportHtml env s1 v l = reportHtml env s v l"
  using assms generatePsiReportHtml_agree [of env "files s1" "files s"]
  by (simp add: reportHtml_def)

lemma writeFileSync_succeeds:
  assumes "segments p \<noteq> []" and "fs (butlast (segments p)) = Some Dir"
    and "fs (segments p) \<noteq> Some Dir"
  shows "writeFileSync fs p c = Inr (fs(segments p \<mapsto> File c))"
proof (cases "fs (segments p)")
  case None
  then show ?thesis using assms by (simp add: writeFileSync_def)
next
  case (Some n)
  then show ?thesis using assms by (cases n) (simp_all add: writeFileSync_def)
qed

lemma writeReport_succeeds:
  assumes "validName (v @ f)"
    and "reportHtml env s v l = Inr html"
    and "\<forall>q. prefix q (segments (DIST env) @ [v @ f]) \<longrightarrow> \<not> isFile (files s q)"
    and "files s (segments (DIST env) @ [v @ f, ''index.html'']) \<noteq> Some Dir"
  shows "\<exists>s'. writeReport env s f l v = (Inr (), s')"
proof -
  let ?dir = "segments (DIST env) @ [v @ f]"
  let ?fs1 = "\<lambda>q. if prefix q ?dir then Some Dir else files s q"
  have mk: "mkdirSync (files s) (dirname (filepathOf env v f)) = Inr ?fs1"
    using assms(3) by (simp add: mkdirSync_Inr_iff segments_filepathOf [OF assms(1)])
  have "\<not> prefix (?dir @ [''index.html'']) ?dir"
    by (simp add: prefix_def)
  then have "?fs1 (?dir @ [''index.html'']) \<noteq> Some Dir"
    using assms(4) by simp
  then have "\<exists>fs2. writeFileSync ?fs1 (filepathOf env v f) html = Inr fs2"
    using writeFileSync_succeeds [of "filepathOf env v f" ?fs1 html]
    by (simp add: segments_filepathOf [OF assms(1)] butlast_append)
  then show ?thesis
    using mk assms(2) by (auto simp: writeReport_def Let_def)
qed

lemma isFile_iff: "isFile n \<longleftrightarrow> (\<exists>c. n = Some (File c))"
  by (auto simp: isFile_def split: option.splits node.splits)

lemma clearFor_step:
  assumes c: "clearFor env (files s) names"
    and w: "writeReport env s f l v = (Inr u, s1)"
    and v: "validName (v @ f)"
  shows "clearFor env (files s1) names"
proof -
  let ?D = "segments (DIST env)"
  from writeReport_Inr(1) [OF w] obtain html where
    fs1: "files s1 = (\<lambda>q. if prefix q (?D @ [v @ f]) then Some Dir else files s q)
                        (?D @ [v @ f, ''index.html''] \<mapsto> File html)"
    by (auto simp: segments_filepathOf [OF v])
  show ?thesis
    unfolding clearFor_def
  proof (intro ballI conjI allI impI)
    fix n q
    assume n: "n \<in> set names" and q: "prefix q (?D @ [n])"
    then have "length q \<le> length ?D + 1"
      using prefix_length_le by fastforce
    then have "q \<noteq> ?D @ [v @ f, ''index.html'']" by auto
    moreover have "\<not> isFile (files s q)"
      using c n q unfolding clearFor_def by blast
    ultimately show "\<not> isFile (files s1 q)"
      by (simp add: fs1 isFile_def)
  next
    fix n
    assume n: "n \<in> set names"
    have "\<not> prefix (?D @ [n, ''index.html'']) (?D @ [v @ f])"
      using prefix_length_le by fastforce
    moreover have "files s (?D @ [n, ''index.html'']) \<noteq> Some Dir"
      using c n unfolding clearFor_def by blast
    ultimately show "files s1 (?D @ [n, ''index.html'']) \<noteq> Some Dir"
      by (simp add: fs1)
  qed
qed

lemma assets_step:
  assumes a: "\<forall>p \<in> set (assetPaths env). isFile (files s (segments p))"
    and w: "writeReport env s f l v = (Inr u, s1)"
    and v: "validName (v @ f)"
  shows "\<forall>p \<in> set (assetPaths env). files s1 (segments p) = files s (segments p)"
proof
  fix p
  assume p: "p \<in> set (assetPaths env)"
  then obtain c where c: "files s (segments p) = Some (File c)"
    using a by (auto simp: isFile_iff)
  have "segments p \<noteq> segments (filepathOf env v f)"
    using asset_not_report(1) [OF p] by (simp add: segments_filepathOf [OF v])
  then show "files s1 (segments p) = files s (segments p)"
    using writeReport_frame(3) [OF w c] c by simp
qed

lemma writeReports_succeeds:
  assumes "\<forall>(f, l, v) \<in> set steps. validName (v @ f)"
    and "clearFor env (files s) (map (\<lambda>(f, l, v). v @ f) steps)"
    and "\<forall>(f, l, v) \<in> set steps. \<exists>html. reportHtml env s v l = Inr html"
    and "\<forall>p \<in> set (assetPaths env). isFile (files s (segments p))"
  shows "\<exists>s'. writeReports env s steps = (Inr (), s')"
  using assms
proof (induction steps arbitrary: s)
  case Nil
  show ?case by simp
next
  case (Cons st steps)
  obtain f l v where st: "st = (f, l, v)" by (cases st)
  have v: "validName (v @ f)" using Cons.prems(1) by (simp add: st)
  obtain html where h: "reportHtml env s v l = Inr html"
    using Cons.prems(3) by (auto simp: st)
  have "\<exists>s1. writeReport env s f l v = (Inr (), s1)"
    using Cons.prems(2) by (intro writeReport_succeeds [OF v h]) (simp_all add: clearFor_def st)
  then obtain s1 where w: "writeReport env s f l v = (Inr (), s1)" ..
  note ag = assets_step [OF Cons.prems(4) w v]
  have eq: "reportHtml env s1 v' l' = reportHtml env s v' l'" for v' l'
    using reportHtml_agree [OF writeReport_frame(1) [OF w] ag] .
  have "\<exists>s'. writeReports env s1 steps = (Inr (), s')"
  proof (rule Cons.IH)
    show "\<forall>(f, l, v) \<in> set steps. validName (v @ f)"
      using Cons.prems(1) by simp
    have "clearFor env (files s) (map (\<lambda>(f, l, v). v @ f) steps)"
      using Cons.prems(2) by (simp add: clearFor_def)
    then show "clearFor env (files s1) (map (\<lambda>(f, l, v). v @ f) steps)"
      using clearFor_step w v by blast
    show "\<forall>(f, l, v) \<in> set steps. \<exists>html. reportHtml env s1 v l = Inr html"
      using Cons.prems(3) by (simp add: eq)
    show "\<forall>p \<in> set (assetPaths env). isFile (files s1 (segments p))"
      using Cons.prems(4) ag by simp
  qed
  then show ?case using w by (simp add: st)
qed

lemma generateErrorLHR_files:
  assumes "generateErrorLHR env fs = (Inr r, fs')"
  shows "fs' = (\<lambda>q. if prefix (segments (TMP env)) q then None
                     else if prefix q (segments (TMP env)) then Some Dir else fs q)"
    and "\<forall>q. prefix q (segments (TMP env)) \<longrightarrow> \<not> isFile (fs q)"
proof -
  from assms obtain fs1 fs2 where
    mk: "mkdirSync fs (TMP env) = Inr fs1"
    and wr: "writeFileSync fs1 (TMP env @ ''/artifacts.json'') (artifactsJson env) = Inr fs2"
    and rm: "rmdirSync fs2 (TMP env) = Inr fs'"
    by (auto simp: generateErrorLHR_def Let_def split: sum.splits option.splits)
  from mk show "\<forall>q. prefix q (segments (TMP env)) \<longrightarrow> \<not> isFile (fs q)"
    by (simp add: mkdirSync_Inr_iff)
  have "fs' = (\<lambda>q. if prefix (segments (TMP env)) q then None else fs2 q)"
    using rm rmdirSync_Dir [of fs2 "TMP env"] scratch_present(1) [OF mk wr] by simp
  then show "fs' = (\<lambda>q. if prefix (segments (TMP env)) q then None
                     else if prefix q (segments (TMP env)) then Some Dir else fs q)"
    using mkdirSync_Inr [OF mk] writeFileSync_Inr [OF wr]
    by (auto simp: segments_artifacts fun_eq_iff)
qed

lemma generateErrorLHR_succeeds:
  assumes free: "\<forall>q. prefix q (segments (TMP env)) \<longrightarrow> \<not> isFile (fs q)"
    and art: "fs (segments (TMP env) @ [''artifacts.json'']) \<noteq> Some Dir"
    and lh: "\<And>fs2. fs2 (segments (TMP env) @ [''artifacts.json'']) = Some (File (artifactsJson env))
           \<Longrightarrow> lighthouse env ''http://fakeurl.com'' (TMP env) fs2 = Inr (Some rr)"
    and a1: "audits (runner_lhr rr) ''font-display'' \<noteq> None"
    and a2: "audits (runner_lhr rr) ''offscreen-images'' \<noteq> None"
    and a3: "audits (runner_lhr rr) ''apple-touch-icon'' \<noteq> None"
  shows "\<exists>r fs'. generateErrorLHR env fs = (Inr r, fs')"
proof -
  let ?tmp = "segments (TMP env)"
  define fs1 where "fs1 = (\<lambda>q. if prefix q ?tmp then Some Dir else fs q)"
  define fs2 where "fs2 = fs1(?tmp @ [''artifacts.json''] \<mapsto> File (artifactsJson env))"
  have mk: "mkdirSync fs (TMP env) = Inr fs1"
    using free by (simp add: mkdirSync_Inr_iff fs1_def)
  have "fs1 (?tmp @ [''artifacts.json'']) \<noteq> Some Dir" and "fs1 ?tmp = Some Dir"
    using art by (simp_all add: prefix_def fs1_def)
  then have wr: "writeFileSync fs1 (TMP env @ ''/artifacts.json'') (artifactsJson env) = Inr fs2"
    using writeFileSync_succeeds [of "TMP env @ ''/artifacts.json''" fs1 "artifactsJson env"]
    by (simp add: segments_artifacts butlast_append fs2_def)
  have l: "lighthouse env ''http://fakeurl.com'' (TMP env) fs2 = Inr (Some rr)"
    by (rule lh) (simp add: fs2_def)
  have "fs2 ?tmp = Some Dir"
    using scratch_present(1) [OF mk wr] .
  then have "\<exists>fs3. rmdirSync fs2 (TMP env) = Inr fs3"
    using rmdirSync_Dir [of fs2 "TMP env"] by simp
  then obtain fs3 where rm: "rmdirSync fs2 (TMP env) = Inr fs3" ..
  from a1 a2 a3 show ?thesis
    by (auto simp: generateErrorLHR_def Let_def mk wr l rm)
qed

lemma filenameToLhr_Inr:
  assumes "filenameToLhr env lhr errorLhr = Inr entries"
  shows "\<exists>es ar xl single.
           swapLocale env lhr ''es'' = Inr es \<and> swapLocale env lhr ''ar'' = Inr ar \<and>
           swapLocale env lhr ''en-XL'' = Inr xl \<and> tweakLhrForPsi lhr = Inr single \<and>
           entries = zip filenames [lhr, es, ar, xl, errorLhr, single]"
  using assms by (auto simp: filenameToLhr_def split: sum.splits)

lemma filenameToLhr_names:
  assumes "filenameToLhr env lhr errorLhr = Inr entries"
  shows "map fst entries = filenames"
  using filenameToLhr_Inr [OF assms] by (auto simp: filenames_def)

lemma run_Inr:
  assumes "run env s0 = (Inr u, s')"
  shows "\<exists>errorLhr fs1 entries.
           generateErrorLHR env (files s0) = (Inr errorLhr, fs1) \<and>
           filenameToLhr env (addPluginCategory (lhr_var s0)) errorLhr = Inr entries \<and>
           writeReports env (s0\<lparr>lhr_var := addPluginCategory (lhr_var s0), files := fs1\<rparr>)
             (stepsOf entries) = (Inr u, s')"
  using assms
  by (auto simp: run_def Let_def forEachEntry_flat split: prod.splits sum.splits)

lemma stepsOf_paths:
  "map (\<lambda>(f, l, v). filepathOf env v f) (stepsOf entries) =
     concat (map (\<lambda>f. map (\<lambda>v. filepathOf env v f) variants) (map fst entries))"
  by (induction entries) (auto simp: stepsOf_def)

lemma stepPath_paths:
  "map (stepPath env) (stepsOf entries) =
     map segments (concat (map (\<lambda>f. map (\<lambda>v. filepathOf env v f) variants) (map fst entries)))"
proof -
  have "map (stepPath env) (stepsOf entries) =
      map segments (map (\<lambda>(f, l, v). filepathOf env v f) (stepsOf entries))"
    by (simp add: stepPath_def split_def)
  then show ?thesis by (simp only: stepsOf_paths)
qed

lemma stepsOf_names:
  "map (\<lambda>(f, l, v). v @ f) (stepsOf entries) =
     concat (map (\<lambda>f. map (\<lambda>v. v @ f) variants) (map fst entries))"
  by (induction entries) (auto simp: stepsOf_def)

lemma stepsOf_valid:
  assumes "map fst entries = filenames"
  shows "\<forall>(f, l, v) \<in> set (stepsOf entries). validName (v @ f)"
proof -
  have "\<forall>e \<in> set entries. fst e \<in> set filenames"
    using assms by (metis image_eqI list.set_map)
  then show ?thesis
    using valid_names by (fastforce simp: stepsOf_def)
qed

lemma expectedPaths_segments:
  "map segments (expectedPaths env) =
     map (\<lambda>n. segments (DIST env) @ [n, ''index.html'']) reportNames"
proof -
  have "map segments (map (\<lambda>v. filepathOf env v f) variants) =
      map (\<lambda>n. segments (DIST env) @ [n, ''index.html'']) (map (\<lambda>v. v @ f) variants)"
    if "f \<in> set filenames" for f
    using that valid_names by (simp add: segments_filepathOf)
  then show ?thesis
    by (simp add: expectedPaths_def reportNames_def map_concat comp_def cong: map_cong)
qed

lemma distinct_expectedPaths: "distinct (map segments (expectedPaths env))"
proof -
  have "inj_on (\<lambda>n. segments (DIST env) @ [n, ''index.html'']) (set reportNames)"
    by (simp add: inj_on_def)
  then show ?thesis
    using distinct_names
    by (simp only: expectedPaths_segments distinct_map reportNames_def)
qed

lemma addPluginCategory_performance:
  "categories (addPluginCategory l) ''performance'' = categories l ''performance''"
  by (simp add: addPluginCategory_def)

lemma reportHtml_plain:
  assumes "\<not> includesStr v ''psi''"
  shows "reportHtml env s v l =
     (case generateReportHtml env l of
        Inl e \<Rightarrow> Inl e
      | Inr html \<Rightarrow>
          Inr (if includesStr v ''cdt''
               then replace html ([CHR 0x22] @ ''lh-root lh-vars'' @ [CHR 0x22])
                      ([CHR 0x22] @ ''lh-root lh-vars lh-devtools'' @ [CHR 0x22])
               else html))"
  using assms by (simp add: reportHtml_def)

lemma variants_psi:
  "\<not> includesStr [] ''psi''"
  "\<not> includesStr ([CHR 0xE2, CHR 0x8C, CHR 0xA3] @ ''.cdt.'') ''psi''"
  "includesStr ([CHR 0xE2, CHR 0x8C, CHR 0xA3] @ ''.psi.'') ''psi''"
  "\<not> includesStr [] ''cdt''"
  "includesStr ([CHR 0xE2, CHR 0x8C, CHR 0xA3] @ ''.cdt.'') ''cdt''"
  "\<not> includesStr ([CHR 0xE2, CHR 0x8C, CHR 0xA3] @ ''.psi.'') ''cdt''"
  by simp_all

lemma tweakLhrForPsi_returns:
  "categories l ''performance'' \<noteq> None \<Longrightarrow> \<exists>t. tweakLhrForPsi l = Inr t"
  by (auto simp: tweakLhrForPsi_def)

lemma generatePsiReportHtml_succeeds:
  assumes "categories b ''performance'' \<noteq> None"
    and "\<forall>l. \<exists>j. sanitizeJson env l = Inr j"
    and "\<forall>p \<in> set (assetPaths env). isFile (fs (segments p))"
  shows "\<exists>html. generatePsiReportHtml env b fs = Inr html"
proof -
  obtain t where t: "tweakLhrForPsi b = Inr t"
    using tweakLhrForPsi_returns [OF assms(1)] by blast
  obtain j where j: "sanitizeJson env t = Inr j"
    using assms(2) by blast
  have "\<exists>c. readFileSync fs p = Inr c" if "p \<in> set (assetPaths env)" for p
    using assms(3) that by (auto simp: readFileSync_def isFile_iff)
  then obtain c1 c2 c3 where
    "readFileSync fs (LH_ROOT env @ ''/report/test-assets/faux-psi-template.html'') = Inr c1"
    "readFileSync fs (LH_ROOT env @ ''/dist/report/psi.js'') = Inr c2"
    "readFileSync fs (LH_ROOT env @ ''/report/test-assets/faux-psi.js'') = Inr c3"
    unfolding assetPaths_def by (metis list.set_intros(1) list.set_intros(2))
  then show ?thesis
    by (simp add: generatePsiReportHtml_def t j)
qed

lemma reportHtml_succeeds:
  assumes "categories (lhr_var s) ''performance'' \<noteq> None"
    and "\<forall>l. \<exists>j. sanitizeJson env l = Inr j"
    and "\<forall>l. \<exists>h. generateReportHtml env l = Inr h"
    and "\<forall>p \<in> set (assetPaths env). isFile (files s (segments p))"
  shows "\<exists>html. reportHtml env s v l = Inr html"
proof (cases "includesStr v ''psi''")
  case True
  then show ?thesis
    using generatePsiReportHtml_succeeds [OF assms(1,2,4)] by (auto simp: reportHtml_def)
next
  case False
  obtain h where "generateReportHtml env l = Inr h" using assms(3) by blast
  then show ?thesis using False by (simp add: reportHtml_def)
qed

lemma run_succeeds_if:
  assumes free: "\<forall>q. prefix q (segments (TMP env)) \<longrightarrow> \<not> isFile (files s0 q)"
    and art: "files s0 (segments (TMP env) @ [''artifacts.json'']) \<noteq> Some Dir"
    and lh: "\<And>fs2. fs2 (segments (TMP env) @ [''artifacts.json'']) = Some (File (artifactsJson env))
           \<Longrightarrow> lighthouse env ''http://fakeurl.com'' (TMP env) fs2 = Inr (Some rr)"
    and a1: "audits (runner_lhr rr) ''font-display'' \<noteq> None"
    and a2: "audits (runner_lhr rr) ''offscreen-images'' \<noteq> None"
    and a3: "audits (runner_lhr rr) ''apple-touch-icon'' \<noteq> None"
    and sw: "\<forall>l locale. \<exists>l'. swapLocale env l locale = Inr l'"
    and perf: "categories (lhr_var s0) ''performance'' \<noteq> None"
    and gen: "\<forall>l. \<exists>h. generateReportHtml env l = Inr h"
    and san: "\<forall>l. \<exists>j. sanitizeJson env l = Inr j"
    and assets: "\<forall>p \<in> set (assetPaths env). isFile (files s0 (segments p))"
    and clear: "clearFor env (files s0) reportNames"
  shows "\<exists>s'. run env s0 = (Inr (), s')"
proof -
  let ?b = "addPluginCategory (lhr_var s0)"
  let ?tmp = "segments (TMP env)"
  let ?D = "segments (DIST env)"
  obtain r fs1 where g: "generateErrorLHR env (files s0) = (Inr r, fs1)"
    using generateErrorLHR_succeeds [OF free art lh a1 a2 a3] by blast
  note fs1 = generateErrorLHR_files(1) [OF g]
  have pb: "categories ?b ''performance'' \<noteq> None"
    using perf by (simp add: addPluginCategory_performance)
  obtain es ar xl where "swapLocale env ?b ''es'' = Inr es" "swapLocale env ?b ''ar'' = Inr ar"
    "swapLocale env ?b ''en-XL'' = Inr xl"
    using sw by meson
  moreover obtain single where "tweakLhrForPsi ?b = Inr single"
    using tweakLhrForPsi_returns [OF pb] by blast
  ultimately obtain entries where e: "filenameToLhr env ?b r = Inr entries"
    by (simp add: filenameToLhr_def)
  let ?s2 = "s0\<lparr>lhr_var := ?b, files := fs1\<rparr>"
  have as: "\<forall>p \<in> set (assetPaths env). isFile (files ?s2 (segments p))"
  proof
    fix p assume p: "p \<in> set (assetPaths env)"
    then have f: "isFile (files s0 (segments p))" using assets by blast
    then have "\<not> prefix (segments p) ?tmp" using free by blast
    then have "fs1 (segments p) = files s0 (segments p)"
      using asset_not_report(2) [OF p] by (simp add: fs1)
    then show "isFile (files ?s2 (segments p))" using f by simp
  qed
  have cl: "clearFor env (files ?s2) reportNames"
    unfolding clearFor_def
  proof (intro ballI conjI allI impI)
    fix n q assume n: "n \<in> set reportNames" and q: "prefix q (?D @ [n])"
    have "\<not> isFile (files s0 q)" using clear n q unfolding clearFor_def by blast
    then show "\<not> isFile (files ?s2 q)" by (simp add: fs1 isFile_def)
  next
    fix n assume n: "n \<in> set reportNames"
    have "\<not> prefix (?D @ [n, ''index.html'']) ?tmp"
      using prefix_length_le by (fastforce simp: segments_TMP)
    moreover have "files s0 (?D @ [n, ''index.html'']) \<noteq> Some Dir"
      using clear n unfolding clearFor_def by blast
    ultimately show "files ?s2 (?D @ [n, ''index.html'']) \<noteq> Some Dir"
      by (simp add: fs1)
  qed
  have names: "map fst entries = filenames" using filenameToLhr_names [OF e] .
  have "\<exists>s'. writeReports env ?s2 (stepsOf entries) = (Inr (), s')"
  proof (rule writeReports_succeeds)
    show "\<forall>(f, l, v) \<in> set (stepsOf entries). validName (v @ f)"
      using stepsOf_valid [OF names] .
    show "clearFor env (files ?s2) (map (\<lambda>(f, l, v). v @ f) (stepsOf entries))"
      using cl by (simp only: stepsOf_names names reportNames_def)
    show "\<forall>(f, l, v) \<in> set (stepsOf entries). \<exists>html. reportHtml env ?s2 v l = Inr html"
      using reportHtml_succeeds [of ?s2 env, OF _ san gen as] pb by auto
    show "\<forall>p \<in> set (assetPaths env). isFile (files ?s2 (segments p))" using as .
  qed
  then show ?thesis
    using g e by (simp add: run_def Let_def forEachEntry_flat)
qed

lemma runnable_run:
  assumes "runnable env s0"
  shows "\<exists>s'. run env s0 = (Inr (), s')"
proof -
  from assms obtain rr where
    "\<And>fs2. fs2 (segments (TMP env) @ [''artifacts.json'']) = Some (File (artifactsJson env))
       \<Longrightarrow> lighthouse env ''http://fakeurl.com'' (TMP env) fs2 = Inr (Some rr)"
    "audits (runner_lhr rr) ''font-display'' \<noteq> None"
    "audits (runner_lhr rr) ''offscreen-images'' \<noteq> None"
    "audits (runner_lhr rr) ''apple-touch-icon'' \<noteq> None"
    unfolding runnable_def by blast
  with assms show ?thesis
    unfolding runnable_def by (intro run_succeeds_if [where rr = rr]) blast+
qed

text \<open>
  A run completes when nothing stands in its way (see \<open>runnable\<close>): it then returns
  without an error.
\<close>

theorem run_completes:
  assumes "runnable env s0"
  shows "\<exists>s'. run env s0 = (Inr (), s')"
  using assms by (rule runnable_run)

lemma readFileSync_Inr_iff: "readFileSync fs p = Inr c \<longleftrightarrow> fs (segments p) = Some (File c)"
  by (auto simp: readFileSync_def split: option.splits node.splits)

lemma generatePsiReportHtml_mono:
  assumes "generatePsiReportHtml env b fs1 = Inr html"
    and "\<forall>p \<in> set (assetPaths env). \<forall>c. fs1 (segments p) = Some (File c) \<longrightarrow>
           fs (segments p) = Some (File c)"
  shows "generatePsiReportHtml env b fs = Inr html"
proof -
  from assms(1) obtain t j c1 c2 c3 where
    t: "tweakLhrForPsi b = Inr t" and j: "sanitizeJson env t = Inr j"
    and r1: "readFileSync fs1 (LH_ROOT env @ ''/report/test-assets/faux-psi-template.html'') = Inr c1"
    and r2: "readFileSync fs1 (LH_ROOT env @ ''/dist/report/psi.js'') = Inr c2"
    and r3: "readFileSync fs1 (LH_ROOT env @ ''/report/test-assets/faux-psi.js'') = Inr c3"
    by (auto simp: generatePsiReportHtml_def split: sum.splits)
  have "readFileSync fs (LH_ROOT env @ ''/report/test-assets/faux-psi-template.html'') = Inr c1"
    "readFileSync fs (LH_ROOT env @ ''/dist/report/psi.js'') = Inr c2"
    "readFileSync fs (LH_ROOT env @ ''/report/test-assets/faux-psi.js'') = Inr c3"
    using r1 r2 r3 assms(2) by (simp_all add: readFileSync_Inr_iff assetPaths_def)
  then show ?thesis
    using assms(1) r1 r2 r3 by (simp add: generatePsiReportHtml_def t j)
qed

lemma reportHtml_mono:
  assumes "reportHtml env s1 v l = Inr html"
    and "lhr_var s1 = lhr_var s"
    and "\<forall>p \<in> set (assetPaths env). \<forall>c. files s1 (segments p) = Some (File c) \<longrightarrow>
           files s (segments p) = Some (File c)"
  shows "reportHtml env s v l = Inr html"
proof (cases "includesStr v ''psi''")
  case True
  with assms(1) obtain h where h: "generatePsiReportHtml env (lhr_var s1) (files s1) = Inr h"
    by (auto simp: reportHtml_def split: sum.splits)
  have "generatePsiReportHtml env (lhr_var s1) (files s) = Inr h"
    using generatePsiReportHtml_mono [OF h assms(3)] .
  then show ?thesis using assms(1,2) h True by (simp add: reportHtml_def)
next
  case False
  then show ?thesis using assms(1) by (simp add: reportHtml_def)
qed

lemma writeReport_assets_back:
  assumes w: "writeReport env s f l v = (Inr u, s1)" and v: "validName (v @ f)"
  shows "\<forall>p \<in> set (assetPaths env). \<forall>c. files s1 (segments p) = Some (File c) \<longrightarrow>
           files s (segments p) = Some (File c)"
proof (intro ballI allI impI)
  fix p c assume p: "p \<in> set (assetPaths env)" and c: "files s1 (segments p) = Some (File c)"
  have "segments p \<noteq> segments (filepathOf env v f)"
    using asset_not_report(1) [OF p] by (simp add: segments_filepathOf [OF v])
  then show "files s (segments p) = Some (File c)"
    using writeReport_frame(4) [OF w c] by simp
qed

lemma writeReports_content:
  assumes "writeReports env s steps = (Inr u, s')"
    and "distinct (map (stepPath env) steps)"
    and "\<forall>(f, l, v) \<in> set steps. validName (v @ f)"
    and "(f, l, v) \<in> set steps"
  shows "\<exists>html. reportHtml env s v l = Inr html \<and>
           files s' (segments (filepathOf env v f)) = Some (File html)"
  using assms
proof (induction steps arbitrary: s)
  case Nil
  then show ?case by simp
next
  case (Cons st steps)
  obtain f0 l0 v0 where st: "st = (f0, l0, v0)" by (cases st)
  from Cons.prems(1) obtain s1 where a: "writeReport env s f0 l0 v0 = (Inr (), s1)"
    and b: "writeReports env s1 steps = (Inr u, s')"
    by (auto simp: st split: prod.splits sum.splits)
  have v0: "validName (v0 @ f0)" using Cons.prems(3) by (simp add: st)
  show ?case
  proof (cases "(f, l, v) = st")
    case True
    from writeReport_frame(5) [OF a] obtain html where
      h: "reportHtml env s v0 l0 = Inr html"
      and w: "files s1 (segments (filepathOf env v0 f0)) = Some (File html)"
      by blast
    have "segments (filepathOf env v0 f0) \<notin> set (map (stepPath env) steps)"
      using Cons.prems(2) by (simp add: st stepPath_def)
    then have "files s' (segments (filepathOf env v0 f0)) = Some (File html)"
      using writeReports_frame(3) [OF b w] by simp
    with h True st show ?thesis by auto
  next
    case False
    then have "(f, l, v) \<in> set steps" using Cons.prems(4) by simp
    moreover have "distinct (map (stepPath env) steps)" using Cons.prems(2) by simp
    moreover have "\<forall>(f, l, v) \<in> set steps. validName (v @ f)" using Cons.prems(3) by simp
    ultimately obtain html where h: "reportHtml env s1 v l = Inr html"
      and w: "files s' (segments (filepathOf env v f)) = Some (File html)"
      using Cons.IH [OF b] by blast
    have "reportHtml env s v l = Inr html"
      using reportHtml_mono [OF h writeReport_frame(1) [OF a] writeReport_assets_back [OF a v0]] .
    with w show ?thesis by blast
  qed
qed

lemma stepsOf_mem:
  "(f, l, v) \<in> set (stepsOf entries) \<longleftrightarrow> (f, l) \<in> set entries \<and> v \<in> set variants"
  by (auto simp: stepsOf_def)

lemma run_content:
  assumes "run env s0 = (Inr u, s')"
  shows "\<exists>errorLhr fs1 entries.
           generateErrorLHR env (files s0) = (Inr errorLhr, fs1) \<and>
           filenameToLhr env (addPluginCategory (lhr_var s0)) errorLhr = Inr entries \<and>
           (\<forall>(f, l) \<in> set entries. \<forall>v \<in> set variants.
              \<exists>html. reportHtml env (s0\<lparr>lhr_var := addPluginCategory (lhr_var s0)\<rparr>) v l = Inr html \<and>
                     files s' (segments (filepathOf env v f)) = Some (File html))"
proof -
  let ?b = "addPluginCategory (lhr_var s0)"
  from run_Inr [OF assms] obtain errorLhr fs1 entries where
    g: "generateErrorLHR env (files s0) = (Inr errorLhr, fs1)"
    and e: "filenameToLhr env ?b errorLhr = Inr entries"
    and w: "writeReports env (s0\<lparr>lhr_var := ?b, files := fs1\<rparr>) (stepsOf entries) = (Inr u, s')"
    by blast
  have names: "map fst entries = filenames" using filenameToLhr_names [OF e] .
  have d: "distinct (map (stepPath env) (stepsOf entries))"
    using distinct_expectedPaths [of env] by (simp only: stepPath_paths names expectedPaths_def)
  note fs1 = generateErrorLHR_files [OF g]
  have bk: "\<forall>p \<in> set (assetPaths env). \<forall>c. fs1 (segments p) = Some (File c) \<longrightarrow>
      files s0 (segments p) = Some (File c)"
    by (auto simp: fs1(1) split: if_splits)
  have "\<exists>html. reportHtml env (s0\<lparr>lhr_var := ?b\<rparr>) v l = Inr html \<and>
      files s' (segments (filepathOf env v f)) = Some (File html)"
    if "(f, l) \<in> set entries" "v \<in> set variants" for f l v
  proof -
    have "(f, l, v) \<in> set (stepsOf entries)" using that by (simp add: stepsOf_mem)
    from writeReports_content [OF w d stepsOf_valid [OF names] this]
    obtain html where h: "reportHtml env (s0\<lparr>lhr_var := ?b, files := fs1\<rparr>) v l = Inr html"
      and f: "files s' (segments (filepathOf env v f)) = Some (File html)" by blast
    have "reportHtml env (s0\<lparr>lhr_var := ?b\<rparr>) v l = Inr html"
      using bk by (intro reportHtml_mono [OF h]) simp_all
    with f show ?thesis by blast
  qed
  with g e show ?thesis by blast
qed

lemma writeReport_lhr_var: "lhr_var (snd (writeReport env s f l v)) = lhr_var s"
  by (simp add: writeReport_def Let_def split: sum.splits)

lemma writeReports_lhr_var: "lhr_var (snd (writeReports env s steps)) = lhr_var s"
proof (induction steps arbitrary: s)
  case Nil
  show ?case by simp
next
  case (Cons st steps)
  obtain f l v where st: "st = (f, l, v)" by (cases st)
  show ?case
    using writeReport_lhr_var [of env s f l v]
    by (cases "writeReport env s f l v") (auto simp: st Cons.IH split: sum.splits)
qed

lemma run_lhr_var: "lhr_var (snd (run env s0)) = addPluginCategory (lhr_var s0)"
proof -
  have "lhr_var (snd (forEachEntry env s es)) = lhr_var s" for s es
    by (simp add: forEachEntry_flat writeReports_lhr_var)
  then show ?thesis
    by (simp add: run_def Let_def split: prod.splits sum.splits)
qed

lemma expectedPaths_mem:
  "p \<in> set (expectedPaths env) \<longleftrightarrow>
     (\<exists>f \<in> set filenames. \<exists>v \<in> set variants. p = filepathOf env v f)"
  by (auto simp: expectedPaths_def)

text \<open>
  C9. A run that completes prints one line per report, for the 18 paths
  \<open>DIST/<variant><filename>/index.html\<close> (six names, each with the prefixes
  \<open>''\<close>, \<open>.cdt.\<close> and \<open>.psi.\<close> after the smile character), in the order of the
  loops. The 18 paths name different files, each of them is a file when the run ends,
  and every other file of the final tree was there before the run, with the same
  content.
\<close>

theorem run_writes_reports:
  assumes "run env s0 = (Inr u, s')"
  shows "console s' = console s0 @ map writtenLine (expectedPaths env) \<and>
         length (expectedPaths env) = 18 \<and>
         distinct (map segments (expectedPaths env)) \<and>
         (\<forall>p \<in> set (expectedPaths env). \<exists>html. files s' (segments p) = Some (File html)) \<and>
         (\<forall>q c. files s' q = Some (File c) \<longrightarrow>
            q \<in> segments ` set (expectedPaths env) \<or> files s0 q = Some (File c))"
proof -
  let ?b = "addPluginCategory (lhr_var s0)"
  from run_Inr [OF assms] obtain errorLhr fs1 entries where
    g: "generateErrorLHR env (files s0) = (Inr errorLhr, fs1)"
    and e: "filenameToLhr env ?b errorLhr = Inr entries"
    and w: "writeReports env (s0\<lparr>lhr_var := ?b, files := fs1\<rparr>) (stepsOf entries) = (Inr u, s')"
    by blast
  have names: "map fst entries = filenames" using filenameToLhr_names [OF e] .
  have paths: "map (\<lambda>(f, l, v). filepathOf env v f) (stepsOf entries) = expectedPaths env"
    by (simp only: stepsOf_paths names expectedPaths_def)
  have spaths: "map (stepPath env) (stepsOf entries) = map segments (expectedPaths env)"
    by (simp only: stepPath_paths names expectedPaths_def)
  have "map (\<lambda>(f, l, v). writtenLine (filepathOf env v f)) (stepsOf entries) =
      map writtenLine (map (\<lambda>(f, l, v). filepathOf env v f) (stepsOf entries))"
    by (simp add: split_def)
  then have c1: "console s' = console s0 @ map writtenLine (expectedPaths env)"
    using writeReports_frame(2) [OF w] by (simp only: paths) simp
  have d: "distinct (map (stepPath env) (stepsOf entries))"
    using distinct_expectedPaths [of env] by (simp only: spaths)
  have c4: "\<exists>html. files s' (segments p) = Some (File html)" if "p \<in> set (expectedPaths env)" for p
  proof -
    from that obtain f v where f: "f \<in> set filenames" and v: "v \<in> set variants"
      and p: "p = filepathOf env v f"
      by (auto simp: expectedPaths_mem)
    from f have "f \<in> fst ` set entries"
      using names by (metis list.set_map)
    then obtain l where "(f, l) \<in> set entries" by force
    then have "(f, l, v) \<in> set (stepsOf entries)"
      using v by (simp add: stepsOf_mem)
    from writeReports_content [OF w d stepsOf_valid [OF names] this]
    show ?thesis unfolding p by blast
  qed
  have c5: "q \<in> segments ` set (expectedPaths env) \<or> files s0 q = Some (File c)"
    if "files s' q = Some (File c)" for q c
  proof -
    from writeReports_frame(4) [OF w that]
    have "q \<in> set (map segments (expectedPaths env)) \<or> fs1 q = Some (File c)"
      by (simp only: spaths) simp
    moreover have "fs1 q = Some (File c) \<Longrightarrow> files s0 q = Some (File c)"
      by (simp add: generateErrorLHR_files(1) [OF g] split: if_splits)
    ultimately show ?thesis by auto
  qed
  from c1 length_expectedPaths distinct_expectedPaths c4 c5 show ?thesis by blast
qed


lemma filenameToLhr_mem:
  assumes "filenameToLhr env b errorLhr = Inr entries"
  shows "(''english'', b) \<in> set entries" and "(''error'', errorLhr) \<in> set entries"
    and "\<exists>es. swapLocale env b ''es'' = Inr es \<and> (''espanol'', es) \<in> set entries"
    and "\<forall>f \<in> set filenames. \<exists>l. (f, l) \<in> set entries"
  using filenameToLhr_Inr [OF assms] by (auto simp: filenames_def)

lemma reportHtml_psi:
  "reportHtml env s ([CHR 0xE2, CHR 0x8C, CHR 0xA3] @ ''.psi.'') l =
     generatePsiReportHtml env (lhr_var s) (files s)"
  by (simp add: reportHtml_def split: sum.splits)

text \<open>
  C10. Whatever its outcome, a run leaves the module's Result with the category
  \<open>lighthouse-plugin-someplugin\<close> (title \<open>Plugin\<close>, score 0.5, no audit
  references) added to its categories. In a run that completes, the Result with that
  category is the one given to the locale swapper, and the one the plain and the
  devtools report of \<open>english\<close> are rendered from.
\<close>

theorem run_plugin_category:
  "categories (lhr_var (snd (run env s0))) =
     (categories (lhr_var s0))(''lighthouse-plugin-someplugin'' \<mapsto>
       \<lparr>categoryId = ''lighthouse-plugin-someplugin'', title = ''Plugin'',
        categoryScore = Some (1 / 2), auditRefs = []\<rparr>) \<and>
   (\<forall>u s'. run env s0 = (Inr u, s') \<longrightarrow>
      (\<exists>es ar xl html.
         swapLocale env (addPluginCategory (lhr_var s0)) ''es'' = Inr es \<and>
         swapLocale env (addPluginCategory (lhr_var s0)) ''ar'' = Inr ar \<and>
         swapLocale env (addPluginCategory (lhr_var s0)) ''en-XL'' = Inr xl \<and>
         generateReportHtml env (addPluginCategory (lhr_var s0)) = Inr html \<and>
         files s' (segments (filepathOf env [] ''english'')) = Some (File html) \<and>
         files s' (segments (filepathOf env ([CHR 0xE2, CHR 0x8C, CHR 0xA3] @ ''.cdt.'') ''english'')) =
           Some (File (replace html ([CHR 0x22] @ ''lh-root lh-vars'' @ [CHR 0x22])
                         ([CHR 0x22] @ ''lh-root lh-vars lh-devtools'' @ [CHR 0x22])))))"
proof (intro conjI allI impI)
  show "categories (lhr_var (snd (run env s0))) =
     (categories (lhr_var s0))(''lighthouse-plugin-someplugin'' \<mapsto>
       \<lparr>categoryId = ''lighthouse-plugin-someplugin'', title = ''Plugin'',
        categoryScore = Some (1 / 2), auditRefs = []\<rparr>)"
    by (simp add: run_lhr_var addPluginCategory_def)
next
  fix u s'
  assume r: "run env s0 = (Inr u, s')"
  let ?b = "addPluginCategory (lhr_var s0)"
  let ?cdt = "[CHR 0xE2, CHR 0x8C, CHR 0xA3] @ ''.cdt.''"
  from run_content [OF r] obtain errorLhr fs1 entries where
    e: "filenameToLhr env ?b errorLhr = Inr entries"
    and c: "\<forall>(f, l) \<in> set entries. \<forall>v \<in> set variants.
              \<exists>html. reportHtml env (s0\<lparr>lhr_var := ?b\<rparr>) v l = Inr html \<and>
                     files s' (segments (filepathOf env v f)) = Some (File html)"
    by blast
  from filenameToLhr_Inr [OF e] obtain es ar xl where
    sw: "swapLocale env ?b ''es'' = Inr es" "swapLocale env ?b ''ar'' = Inr ar"
      "swapLocale env ?b ''en-XL'' = Inr xl"
    by blast
  have en: "(''english'', ?b) \<in> set entries" using filenameToLhr_mem(1) [OF e] .
  have "[] \<in> set variants" "?cdt \<in> set variants" by (simp_all add: variants_def)
  then have v: "[] \<in> set variants" "?cdt \<in> set variants" by simp_all
  have c': "\<exists>html. reportHtml env (s0\<lparr>lhr_var := ?b\<rparr>) v l = Inr html \<and>
      files s' (segments (filepathOf env v f)) = Some (File html)"
    if "(f, l) \<in> set entries" "v \<in> set variants" for f l v
    using c that by blast
  from c' [OF en v(1)] c' [OF en v(2)] obtain h1 h2 where
    h1: "reportHtml env (s0\<lparr>lhr_var := ?b\<rparr>) [] ?b = Inr h1"
    and f1: "files s' (segments (filepathOf env [] ''english'')) = Some (File h1)"
    and h2: "reportHtml env (s0\<lparr>lhr_var := ?b\<rparr>) ?cdt ?b = Inr h2"
    and f2: "files s' (segments (filepathOf env ?cdt ''english'')) = Some (File h2)"
    by blast
  from h1 have g: "generateReportHtml env ?b = Inr h1"
    by (simp add: reportHtml_plain variants_psi split: sum.splits)
  with h2 have "h2 = replace h1 ([CHR 0x22] @ ''lh-root lh-vars'' @ [CHR 0x22])
                         ([CHR 0x22] @ ''lh-root lh-vars lh-devtools'' @ [CHR 0x22])"
    by (simp add: reportHtml_plain variants_psi)
  with sw g f1 f2 show "\<exists>es ar xl html.
         swapLocale env ?b ''es'' = Inr es \<and>
         swapLocale env ?b ''ar'' = Inr ar \<and>
         swapLocale env ?b ''en-XL'' = Inr xl \<and>
         generateReportHtml env ?b = Inr html \<and>
         files s' (segments (filepathOf env [] ''english'')) = Some (File html) \<and>
         files s' (segments (filepathOf env ?cdt ''english'')) =
           Some (File (replace html ([CHR 0x22] @ ''lh-root lh-vars'' @ [CHR 0x22])
                         ([CHR 0x22] @ ''lh-root lh-vars lh-devtools'' @ [CHR 0x22])))"
    by blast
qed

text \<open>
  C3. The markup of the psi flavor does not depend on the Result of the entry: in a
  run that completes, the six reports of the psi flavor all hold the markup that
  \<open>generatePsiReportHtml\<close> derives from the module's Result (the base Result with
  the plugin category), also under the names \<open>espanol\<close>, \<open>error\<close> and
  \<open>single-category\<close>, whose own Results differ from it.
\<close>

theorem run_psi_reports:
  assumes "run env s0 = (Inr u, s')"
  shows "\<exists>html. generatePsiReportHtml env (addPluginCategory (lhr_var s0)) (files s0) = Inr html \<and>
           (\<forall>filename \<in> set filenames.
              files s' (segments (filepathOf env ([CHR 0xE2, CHR 0x8C, CHR 0xA3] @ ''.psi.'') filename)) =
                Some (File html))"
proof -
  let ?b = "addPluginCategory (lhr_var s0)"
  let ?psi = "[CHR 0xE2, CHR 0x8C, CHR 0xA3] @ ''.psi.''"
  from run_content [OF assms] obtain errorLhr fs1 entries where
    e: "filenameToLhr env ?b errorLhr = Inr entries"
    and c: "\<forall>(f, l) \<in> set entries. \<forall>v \<in> set variants.
              \<exists>html. reportHtml env (s0\<lparr>lhr_var := ?b\<rparr>) v l = Inr html \<and>
                     files s' (segments (filepathOf env v f)) = Some (File html)"
    by blast
  have psi: "?psi \<in> set variants" by (simp add: variants_def)
  have each: "\<exists>html. generatePsiReportHtml env ?b (files s0) = Inr html \<and>
      files s' (segments (filepathOf env ?psi f)) = Some (File html)"
    if "f \<in> set filenames" for f
  proof -
    from filenameToLhr_mem(4) [OF e] that obtain l where "(f, l) \<in> set entries" by blast
    with c psi obtain html where
      "reportHtml env (s0\<lparr>lhr_var := ?b\<rparr>) ?psi l = Inr html"
      "files s' (segments (filepathOf env ?psi f)) = Some (File html)"
      by blast
    then show ?thesis
      using reportHtml_psi [of env "s0\<lparr>lhr_var := ?b\<rparr>" l] by simp
  qed
  have "''english'' \<in> set filenames" by (simp add: filenames_def)
  from each [OF this] obtain html where
    h: "generatePsiReportHtml env ?b (files s0) = Inr html" by blast
  with each have "\<forall>filename \<in> set filenames.
      files s' (segments (filepathOf env ?psi filename)) = Some (File html)"
    by fastforce
  with h show ?thesis by blast
qed

lemma sample_segments:
  "segments (LH_ROOT sampleEnv) = [''lh'']"
  "segments (DIST sampleEnv) = [''lh'', ''dist'', ''now'']"
  by (simp_all add: segments_DIST) (simp_all add: sampleEnv_def segments_def)

lemma sampleFs_files:
  "isFile (sampleFs q) \<longleftrightarrow>
     q \<in> {[''lh'', ''report'', ''test-assets'', ''faux-psi-template.html''],
          [''lh'', ''report'', ''test-assets'', ''faux-psi.js''],
          [''lh'', ''dist'', ''report'', ''psi.js'']}"
  by (simp add: sampleFs_def isFile_def)

lemma sampleFs_dirs:
  "sampleFs q = Some Dir \<longleftrightarrow>
     q \<in> {[], [''lh''], [''lh'', ''report''], [''lh'', ''report'', ''test-assets''],
          [''lh'', ''dist''], [''lh'', ''dist'', ''report'']}"
  by (simp add: sampleFs_def)

lemma sample_free:
  "\<forall>q. prefix q (segments (DIST sampleEnv) @ [n]) \<longrightarrow> \<not> isFile (sampleFs q)"
proof (intro allI impI)
  fix q assume "prefix q (segments (DIST sampleEnv) @ [n])"
  then have "q \<in> set (prefixes [''lh'', ''dist'', ''now'', n])"
    by (simp add: sample_segments in_set_prefixes del: prefixes.simps)
  then show "\<not> isFile (sampleFs q)"
    by (auto simp: sampleFs_files)
qed

lemma runnable_sample: "runnable sampleEnv sampleState"
proof -
  have p1: "\<forall>q. prefix q (segments (TMP sampleEnv)) \<longrightarrow> \<not> isFile (files sampleState q)"
    using sample_free [of "''.tmp''"] by (simp add: segments_TMP sampleState_def)
  have p2: "files sampleState (segments (TMP sampleEnv) @ [''artifacts.json'']) \<noteq> Some Dir"
    by (simp add: sampleState_def sampleFs_dirs segments_TMP sample_segments)
  have p3: "lighthouse sampleEnv ''http://fakeurl.com'' (TMP sampleEnv) fs2 =
      Inr (Some \<lparr>runner_lhr = sampleErrorLhr\<rparr>)"
    if "fs2 (segments (TMP sampleEnv) @ [''artifacts.json'']) = Some (File (artifactsJson sampleEnv))"
    for fs2
    using that by (rule lighthouse_sampleEnv)
  have p4: "audits (runner_lhr \<lparr>runner_lhr = sampleErrorLhr\<rparr>) ''font-display'' \<noteq> None"
    "audits (runner_lhr \<lparr>runner_lhr = sampleErrorLhr\<rparr>) ''offscreen-images'' \<noteq> None"
    "audits (runner_lhr \<lparr>runner_lhr = sampleErrorLhr\<rparr>) ''apple-touch-icon'' \<noteq> None"
    by (simp_all add: sampleErrorLhr_def sampleLhr_def)
  have p5: "\<forall>l locale. \<exists>l'. swapLocale sampleEnv l locale = Inr l'"
    "\<forall>l. \<exists>h. generateReportHtml sampleEnv l = Inr h"
    "\<forall>l. \<exists>j. sanitizeJson sampleEnv l = Inr j"
    by (simp_all add: sampleEnv_def)
  have p6: "categories (lhr_var sampleState) ''performance'' \<noteq> None"
    by (simp add: sampleState_def sampleLhr_def)
  have p7: "\<forall>p \<in> set (assetPaths sampleEnv). isFile (files sampleState (segments p))"
    by (simp add: assetPaths_def segments_assets sample_segments sampleState_def sampleFs_files)
  have p8: "clearFor sampleEnv (files sampleState) reportNames"
    unfolding clearFor_def
  proof (intro ballI conjI)
    fix n
    show "\<forall>q. prefix q (segments (DIST sampleEnv) @ [n]) \<longrightarrow> \<not> isFile (files sampleState q)"
      using sample_free [of n] by (simp add: sampleState_def)
    show "files sampleState (segments (DIST sampleEnv) @ [n, ''index.html'']) \<noteq> Some Dir"
      by (simp add: sampleState_def sampleFs_dirs sample_segments)
  qed
  from p1 p2 p3 p4 p5 p6 p7 p8 show ?thesis
    unfolding runnable_def by blast
qed

lemma run_sample: "\<exists>s'. run sampleEnv sampleState = (Inr (), s')"
  using runnable_sample by (rule runnable_run)

theorem run_completes_witness: "\<exists>s'. run sampleEnv sampleState = (Inr (), s')"
  using run_completes [OF runnable_sample] .


lemma sampleState_simps:
  "lhr_var sampleState = sampleLhr" "files sampleState = sampleFs" "console sampleState = []"
  by (simp_all add: sampleState_def)

theorem run_writes_reports_witness:
  "\<exists>s'. run sampleEnv sampleState = (Inr (), s') \<and>
        console s' = map writtenLine (expectedPaths sampleEnv) \<and>
        length (console s') = 18 \<and>
        (\<exists>html. files s' (segments (filepathOf sampleEnv [] ''english'')) = Some (File html)) \<and>
        (\<forall>c. files s' (segments (TMP sampleEnv @ ''/artifacts.json'')) \<noteq> Some (File c))"
proof -
  obtain s' where r: "run sampleEnv sampleState = (Inr (), s')"
    using run_sample by blast
  note t = run_writes_reports [OF r]
  have c: "console s' = map writtenLine (expectedPaths sampleEnv)"
    using t by (simp add: sampleState_simps)
  have l: "length (console s') = 18"
    using t by (simp add: c)
  have "filepathOf sampleEnv [] ''english'' \<in> set (expectedPaths sampleEnv)"
    by (simp add: expectedPaths_mem filenames_def variants_def)
  then have f: "\<exists>html. files s' (segments (filepathOf sampleEnv [] ''english'')) = Some (File html)"
    using t by blast
  have "segments ` set (expectedPaths sampleEnv) =
      (\<lambda>n. segments (DIST sampleEnv) @ [n, ''index.html'']) ` set reportNames"
    using arg_cong [OF expectedPaths_segments [of sampleEnv], of set] by simp
  then have "segments (TMP sampleEnv @ ''/artifacts.json'') \<notin> segments ` set (expectedPaths sampleEnv)"
    by (auto simp: segments_artifacts segments_TMP)
  moreover have "\<not> isFile (sampleFs (segments (TMP sampleEnv @ ''/artifacts.json'')))"
    by (simp add: sampleFs_files segments_artifacts segments_TMP sample_segments)
  moreover have "\<forall>q c. files s' q = Some (File c) \<longrightarrow>
      q \<in> segments ` set (expectedPaths sampleEnv) \<or> sampleFs q = Some (File c)"
    using t by (simp add: sampleState_simps)
  ultimately have a: "\<forall>c. files s' (segments (TMP sampleEnv @ ''/artifacts.json'')) \<noteq> Some (File c)"
    unfolding isFile_iff by blast
  from r c l f a show ?thesis by blast
qed

lemma sample_plain_html:
  "generateReportHtml sampleEnv (addPluginCategory sampleLhr) =
     Inr (''<div class='' @ [CHR 0x22] @ ''lh-root lh-vars'' @ [CHR 0x22] @
          ''>Performance Plugin</div>'')"
  by (simp add: sampleEnv_def titleOf_def addPluginCategory_def sampleLhr_def samplePerformance_def)

theorem run_plugin_category_witness:
  "categories sampleLhr ''lighthouse-plugin-someplugin'' = None \<and>
   (\<exists>s'. run sampleEnv sampleState = (Inr (), s') \<and>
      categories (lhr_var s') ''lighthouse-plugin-someplugin'' =
        Some \<lparr>categoryId = ''lighthouse-plugin-someplugin'', title = ''Plugin'',
              categoryScore = Some (1 / 2), auditRefs = []\<rparr> \<and>
      files s' (segments (filepathOf sampleEnv [] ''english'')) =
        Some (File (''<div class='' @ [CHR 0x22] @ ''lh-root lh-vars'' @ [CHR 0x22] @
                    ''>Performance Plugin</div>'')) \<and>
      files s' (segments (filepathOf sampleEnv ([CHR 0xE2, CHR 0x8C, CHR 0xA3] @ ''.cdt.'') ''english'')) =
        Some (File (''<div class='' @ [CHR 0x22] @ ''lh-root lh-vars lh-devtools'' @ [CHR 0x22] @
                    ''>Performance Plugin</div>'')))"
proof -
  obtain s' where r: "run sampleEnv sampleState = (Inr (), s')"
    using run_sample by blast
  note t = run_plugin_category [of sampleEnv sampleState]
  have c: "categories (lhr_var s') ''lighthouse-plugin-someplugin'' =
        Some \<lparr>categoryId = ''lighthouse-plugin-someplugin'', title = ''Plugin'',
              categoryScore = Some (1 / 2), auditRefs = []\<rparr>"
    using t by (simp add: r)
  from t r obtain html where
    h: "generateReportHtml sampleEnv (addPluginCategory (lhr_var sampleState)) = Inr html"
    and f1: "files s' (segments (filepathOf sampleEnv [] ''english'')) = Some (File html)"
    and f2: "files s' (segments (filepathOf sampleEnv ([CHR 0xE2, CHR 0x8C, CHR 0xA3] @ ''.cdt.'') ''english'')) =
           Some (File (replace html ([CHR 0x22] @ ''lh-root lh-vars'' @ [CHR 0x22])
                         ([CHR 0x22] @ ''lh-root lh-vars lh-devtools'' @ [CHR 0x22])))"
    by blast
  from h have html: "html = ''<div class='' @ [CHR 0x22] @ ''lh-root lh-vars'' @ [CHR 0x22] @
          ''>Performance Plugin</div>''"
    by (simp add: sampleState_simps sample_plain_html)
  have rep: "replace html ([CHR 0x22] @ ''lh-root lh-vars'' @ [CHR 0x22])
                         ([CHR 0x22] @ ''lh-root lh-vars lh-devtools'' @ [CHR 0x22]) =
      ''<div class='' @ [CHR 0x22] @ ''lh-root lh-vars lh-devtools'' @ [CHR 0x22] @
          ''>Performance Plugin</div>''"
    by (simp add: html)
  have n: "categories sampleLhr ''lighthouse-plugin-someplugin'' = None"
    by (simp add: sampleLhr_def)
  from n r c f1 f2 show ?thesis
    by (simp only: rep) (simp add: html)
qed

lemma sample_reads:
  "readFileSync sampleFs (LH_ROOT sampleEnv @ ''/report/test-assets/faux-psi-template.html'') =
     Inr ''<html>''"
  "readFileSync sampleFs (LH_ROOT sampleEnv @ ''/dist/report/psi.js'') = Inr ''psi''"
  "readFileSync sampleFs (LH_ROOT sampleEnv @ ''/report/test-assets/faux-psi.js'') = Inr ''faux''"
  by (simp_all add: readFileSync_Inr_iff segments_assets sample_segments sampleFs_def)

lemma sample_psi_title:
  assumes "categories l ''performance'' = Some p"
  shows "generatePsiReportHtml sampleEnv l sampleFs =
     Inr (''<html>'' @ title p @ [CHR 0x0A] @ ''psi;'' @ [CHR 0x0A] @ ''faux;'' @ [CHR 0x0A] @
          ''  css'')"
proof -
  obtain t where t: "tweakLhrForPsi l = Inr t"
    and c: "categories t ''performance'' =
      Some (p\<lparr>auditRefs := filter (\<lambda>audit. \<not> endsWith (id audit) ''-budget'') (auditRefs p)\<rparr>)"
    using assms by (simp add: tweakLhrForPsi_def)
  have j: "sanitizeJson sampleEnv t = Inr (title p)"
    by (simp add: sampleEnv_def titleOf_def c)
  have e: "replaceStrings sampleEnv src reps = src @ concat (map snd reps)"
    "REPORT_CSS sampleEnv = ''css''" for src reps
    by (simp_all add: sampleEnv_def)
  show ?thesis
    by (simp add: generatePsiReportHtml_def t j sample_reads e)
qed

lemma sample_psi_html:
  "generatePsiReportHtml sampleEnv (addPluginCategory sampleLhr) sampleFs =
     Inr (''<html>Performance'' @ [CHR 0x0A] @ ''psi;'' @ [CHR 0x0A] @ ''faux;'' @ [CHR 0x0A] @
          ''  css'')"
proof -
  have "categories (addPluginCategory sampleLhr) ''performance'' = Some samplePerformance"
    by (simp add: addPluginCategory_def sampleLhr_def)
  from sample_psi_title [OF this] show ?thesis
    by (simp add: samplePerformance_def)
qed

lemma sample_psi_html_es:
  "\<exists>es. swapLocale sampleEnv (addPluginCategory sampleLhr) ''es'' = Inr es \<and>
     generatePsiReportHtml sampleEnv es sampleFs =
       Inr (''<html>es:Performance'' @ [CHR 0x0A] @ ''psi;'' @ [CHR 0x0A] @ ''faux;'' @ [CHR 0x0A] @
            ''  css'')"
proof -
  obtain es where es: "swapLocale sampleEnv (addPluginCategory sampleLhr) ''es'' = Inr es"
    and c: "categories es ''performance'' =
      Some (samplePerformance\<lparr>title := ''es:'' @ title samplePerformance\<rparr>)"
    by (simp add: sampleEnv_def addPluginCategory_def sampleLhr_def)
  from sample_psi_title [OF c] es show ?thesis
    by (simp add: samplePerformance_def)
qed

theorem run_psi_reports_witness:
  "\<exists>s' es. run sampleEnv sampleState = (Inr (), s') \<and>
      swapLocale sampleEnv (addPluginCategory sampleLhr) ''es'' = Inr es \<and>
      files s' (segments (filepathOf sampleEnv ([CHR 0xE2, CHR 0x8C, CHR 0xA3] @ ''.psi.'') ''espanol'')) =
        Some (File (''<html>Performance'' @ [CHR 0x0A] @ ''psi;'' @ [CHR 0x0A] @ ''faux;'' @
                    [CHR 0x0A] @ ''  css'')) \<and>
      generatePsiReportHtml sampleEnv es sampleFs =
        Inr (''<html>es:Performance'' @ [CHR 0x0A] @ ''psi;'' @ [CHR 0x0A] @ ''faux;'' @
             [CHR 0x0A] @ ''  css'')"
proof -
  obtain s' where r: "run sampleEnv sampleState = (Inr (), s')"
    using run_sample by blast
  have "''espanol'' \<in> set filenames" by (simp add: filenames_def)
  with run_psi_reports [OF r] sample_psi_html
  have "files s' (segments (filepathOf sampleEnv ([CHR 0xE2, CHR 0x8C, CHR 0xA3] @ ''.psi.'') ''espanol'')) =
        Some (File (''<html>Performance'' @ [CHR 0x0A] @ ''psi;'' @ [CHR 0x0A] @ ''faux;'' @
                    [CHR 0x0A] @ ''  css''))"
    by (auto simp: sampleState_simps)
  with r sample_psi_html_es show ?thesis by blast
qed

section \<open>The single-category trim on a store\<close>

lemma fresh_simps [simp]:
  "fresh lo JUndefined" "fresh lo JNull" "fresh lo (JBool b)" "fresh lo (JNumber n)"
  "fresh lo (JString s)" "fresh lo (JRef a) = (lo \<le> a)"
  by (simp_all add: fresh_def)

lemma refsOf_array: "\<forall>v \<in> set vs. fresh lo v \<Longrightarrow> \<forall>b \<in> refsOf (JArray vs). lo \<le> b"
  by fastforce

lemma refsOf_object:
  "\<forall>(k, v) \<in> set props. fresh lo v \<Longrightarrow> \<forall>b \<in> refsOf (JObject props). lo \<le> b"
  by fastforce

lemma closed_append:
  assumes "closedFrom lo h" and "\<forall>b \<in> refsOf obj. lo \<le> b"
  shows "closedFrom lo (h @ [obj])"
  using assms by (auto simp: closedFrom_def nth_append)

lemma closed_update:
  assumes "closedFrom lo h" and "\<forall>b \<in> refsOf obj. lo \<le> b"
  shows "closedFrom lo (h[a := obj])"
proof (cases "a < length h")
  case True
  then show ?thesis using assms by (auto simp: closedFrom_def nth_list_update)
next
  case False
  then show ?thesis using assms by (simp add: list_update_beyond)
qed

lemma extendsClosed_refl: "extendsClosed h h"
  by (simp add: extendsClosed_def closedFrom_def)

lemma extendsClosed_append:
  assumes "extendsClosed h0 h" and "\<forall>b \<in> refsOf obj. length h0 \<le> b"
  shows "extendsClosed h0 (h @ [obj])"
  using assms by (auto simp: extendsClosed_def closed_append)

lemma extendsClosed_update:
  assumes "extendsClosed h0 h" and "length h0 \<le> a" and "\<forall>b \<in> refsOf obj. length h0 \<le> b"
  shows "extendsClosed h0 (h[a := obj])"
  using assms by (auto simp: extendsClosed_def closed_update)

lemma parse_kept:
  "parse j h = (v, h') \<Longrightarrow> extendsClosed h0 h \<Longrightarrow> extendsClosed h0 h' \<and> fresh (length h0) v"
  "parseElements js h = (vs, h') \<Longrightarrow> extendsClosed h0 h \<Longrightarrow>
     extendsClosed h0 h' \<and> (\<forall>v \<in> set vs. fresh (length h0) v)"
  "parseMembers ms h = (props, h') \<Longrightarrow> extendsClosed h0 h \<Longrightarrow>
     extendsClosed h0 h' \<and> (\<forall>(k, v) \<in> set props. fresh (length h0) v)"
proof (induction j h and js h and ms h arbitrary: v h' and vs h' and props h'
    rule: parse_parseElements_parseMembers.induct)
  case (5 js h)
  obtain es h1 where p: "parseElements js h = (es, h1)" by force
  from "5.IH" [OF p "5.prems"(2)] have k: "extendsClosed h0 h1" and f: "\<forall>v \<in> set es. fresh (length h0) v"
    by simp_all
  from "5.prems"(1) p have v: "v = JRef (length h1)" and h': "h' = h1 @ [JArray es]" by simp_all
  have "extendsClosed h0 h'" unfolding h' using k f by (intro extendsClosed_append refsOf_array refsOf_object)
  moreover have "fresh (length h0) v" using k by (simp add: v extendsClosed_def)
  ultimately show ?case by simp
next
  case (6 ms h)
  obtain ps h1 where p: "parseMembers ms h = (ps, h1)" by force
  from "6.IH" [OF p "6.prems"(2)] have k: "extendsClosed h0 h1"
    and f: "\<forall>(k, v) \<in> set ps. fresh (length h0) v"
    by simp_all
  from "6.prems"(1) p have v: "v = JRef (length h1)" and h': "h' = h1 @ [JObject ps]" by simp_all
  have "extendsClosed h0 h'" unfolding h' using k f by (intro extendsClosed_append refsOf_array refsOf_object)
  moreover have "fresh (length h0) v" using k by (simp add: v extendsClosed_def)
  ultimately show ?case by simp
next
  case (8 j js h)
  obtain v1 h1 where p1: "parse j h = (v1, h1)" by force
  obtain vs2 h2 where p2: "parseElements js h1 = (vs2, h2)" by force
  from "8.IH"(1) [OF p1 "8.prems"(2)] have k1: "extendsClosed h0 h1" and f1: "fresh (length h0) v1"
    by simp_all
  from "8.IH"(2) [OF p1 [symmetric] p2 k1]
  have k2: "extendsClosed h0 h2" and f2: "\<forall>v \<in> set vs2. fresh (length h0) v" by simp_all
  from "8.prems"(1) p1 p2 have "vs = v1 # vs2" "h' = h2" by simp_all
  with k2 f1 f2 show ?case by simp
next
  case (10 k j ms h)
  obtain v1 h1 where p1: "parse j h = (v1, h1)" by force
  obtain ps2 h2 where p2: "parseMembers ms h1 = (ps2, h2)" by force
  from "10.IH"(1) [OF p1 "10.prems"(2)] have k1: "extendsClosed h0 h1" and f1: "fresh (length h0) v1"
    by simp_all
  from "10.IH"(2) [OF p1 [symmetric] p2 k1]
  have k2: "extendsClosed h0 h2" and f2: "\<forall>(k, v) \<in> set ps2. fresh (length h0) v" by simp_all
  from "10.prems"(1) p1 p2 have "props = (k, v1) # ps2" "h' = h2" by simp_all
  with k2 f1 f2 show ?case by simp
qed auto

lemma jsonClone_kept:
  assumes "jsonClone h v = (out, h')"
  shows "extendsClosed h h'" and "out = Inr c \<Longrightarrow> fresh (length h) c"
proof -
  show "extendsClosed h h'"
    using assms parse_kept(1) [OF _ extendsClosed_refl [of h]]
    by (auto simp: jsonClone_def extendsClosed_refl split: sum.splits option.splits prod.splits)
  show "out = Inr c \<Longrightarrow> fresh (length h) c"
    using assms parse_kept(1) [OF _ extendsClosed_refl [of h]]
    by (auto simp: jsonClone_def split: sum.splits option.splits prod.splits)
qed

lemma getProp_fresh:
  assumes "extendsClosed h0 h" and "fresh (length h0) base" and "getProp h base key = Inr v"
  shows "fresh (length h0) v"
proof (cases base)
  case (JRef a)
  with assms(3) have a: "a < length h"
    by (simp add: getProp_def split: if_splits)
  show ?thesis
  proof (cases "h ! a")
    case (JObject props)
    show ?thesis
    proof (cases "map_of props key")
      case None
      then show ?thesis using assms(3) JRef JObject a by (simp add: getProp_def)
    next
      case (Some w)
      then have v: "v = w" using assms(3) JRef JObject a by (simp add: getProp_def)
      from Some have "w \<in> snd ` set props" by (metis map_of_SomeD image_eqI snd_conv)
      then have "\<forall>b. w = JRef b \<longrightarrow> b \<in> refsOf (h ! a)" by (force simp: JObject)
      moreover have "\<forall>b \<in> refsOf (h ! a). length h0 \<le> b"
        using assms(1,2) a JRef by (simp add: extendsClosed_def closedFrom_def)
      ultimately show ?thesis by (auto simp: v fresh_def split: jsval.splits)
    qed
  next
    case (JArray es)
    then show ?thesis using assms(3) JRef a by (simp add: getProp_def)
  qed
qed (use assms(3) in \<open>auto simp: getProp_def\<close>)

lemma set_setKey: "set (setKey props key v) \<subseteq> insert (key, v) (set props)"
  by (induction props) (auto split: if_splits)

lemma setProp_kept:
  assumes "extendsClosed h0 h" and "fresh (length h0) base" and "fresh (length h0) v"
    and "setProp h base key v = Inr h'"
  shows "extendsClosed h0 h'"
proof -
  from assms(4) obtain a props where base: "base = JRef a" and a: "a < length h"
    and o: "h ! a = JObject props" and h': "h' = h[a := JObject (setKey props key v)]"
    by (auto simp: setProp_def split: jsval.splits if_splits jsobj.splits)
  have "\<forall>b \<in> refsOf (h ! a). length h0 \<le> b"
    using assms(1,2) a base by (simp add: extendsClosed_def closedFrom_def)
  then have "\<forall>(k, w) \<in> set props. fresh (length h0) w"
    by (auto simp: o fresh_def split: jsval.splits) force
  then have "\<forall>(k, w) \<in> set (setKey props key v). fresh (length h0) w"
    using set_setKey [of props key v] assms(3) by auto
  then show ?thesis
    unfolding h' using assms(1,2) base by (intro extendsClosed_update refsOf_object) simp_all
qed

lemma deleteProp_kept:
  assumes "extendsClosed h0 h" and "fresh (length h0) base" and "deleteProp h base key = Inr h'"
  shows "extendsClosed h0 h'"
proof (cases "\<exists>a props. base = JRef a \<and> a < length h \<and> h ! a = JObject props")
  case True
  then obtain a props where base: "base = JRef a" and a: "a < length h"
    and o: "h ! a = JObject props" by blast
  then have h': "h' = h[a := JObject (filter (\<lambda>(k, w). k \<noteq> key) props)]"
    using assms(3) by (simp add: deleteProp_def)
  have "\<forall>b \<in> refsOf (h ! a). length h0 \<le> b"
    using assms(1,2) a base by (simp add: extendsClosed_def closedFrom_def)
  then have "\<forall>b \<in> refsOf (JObject (filter (\<lambda>(k, w). k \<noteq> key) props)). length h0 \<le> b"
    by (auto simp: o)
  then show ?thesis
    unfolding h' using assms(1,2) base by (intro extendsClosed_update) simp_all
next
  case False
  then have "h' = h"
    using assms(3)
    by (auto simp: deleteProp_def split: jsval.splits if_splits jsobj.splits)
  then show ?thesis using assms(1) by simp
qed

lemma filterAuditRefs_fresh:
  assumes "extendsClosed h0 h" and "fresh (length h0) refs" and "filterAuditRefs h refs = Inr ks"
  shows "\<forall>v \<in> set ks. fresh (length h0) v"
proof -
  from assms(3) obtain a es keep where base: "refs = JRef a" and a: "a < length h"
    and o: "h ! a = JArray es" and ks: "ks = map fst (filter snd (zip es keep))"
    by (auto simp: filterAuditRefs_def split: jsval.splits if_splits jsobj.splits sum.splits)
  have "\<forall>b \<in> refsOf (h ! a). length h0 \<le> b"
    using assms(1,2) a base by (simp add: extendsClosed_def closedFrom_def)
  then have "\<forall>v \<in> set es. fresh (length h0) v"
    by (auto simp: o fresh_def split: jsval.splits)
  moreover have "set ks \<subseteq> set es"
    unfolding ks by (auto dest: set_zip_leftD)
  ultimately show ?thesis by blast
qed

lemma reach_fresh:
  assumes "a \<in> reach h v" and "closedFrom lo h" and "fresh lo v"
  shows "lo \<le> a"
  using assms
proof (induction rule: reach.induct)
  case (root a)
  then show ?case by simp
next
  case (step a b)
  then show ?case by (auto simp: closedFrom_def)
qed

lemma extendsClosed_trans_length: "extendsClosed h0 h \<Longrightarrow> length h0 \<le> length h"
  by (simp add: extendsClosed_def)

lemma tweakLhrForPsi_heap_kept:
  assumes "tweakLhrForPsi_heap h lhr = (out, h')"
  shows "extendsClosed h h' \<and> (\<forall>v. out = Inr v \<longrightarrow> fresh (length h) v)"
proof -
  let ?lo = "length h"
  obtain o1 h1 where c: "jsonClone h lhr = (o1, h1)" by force
  note k1 = jsonClone_kept(1) [OF c]
  show ?thesis
  proof (cases o1)
    case (Inl e)
    then show ?thesis using assms c k1 by (auto simp: tweakLhrForPsi_heap_def)
  next
    case (Inr clone)
    note fc = jsonClone_kept(2) [OF c Inr]
    note eqs = c Inr
    show ?thesis
      proof (cases "getProp h1 clone ''categories''")
        case (Inl e)
        with assms have "out = Inl e"
          by (simp add: tweakLhrForPsi_heap_def Let_def eqs)
        moreover from assms Inl have "h' = h1"
          by (simp add: tweakLhrForPsi_heap_def Let_def eqs)
        ultimately show ?thesis using k1 by simp
      next
        case s1: (Inr cats)
        note eqs = eqs s1
        have f1: "fresh ?lo cats"
          using getProp_fresh [OF k1 fc s1] .
        show ?thesis
        proof (cases "getProp h1 cats ''performance''")
          case (Inl e)
          with assms have "out = Inl e"
            by (simp add: tweakLhrForPsi_heap_def Let_def eqs)
          moreover from assms Inl have "h' = h1"
            by (simp add: tweakLhrForPsi_heap_def Let_def eqs)
          ultimately show ?thesis using k1 by simp
        next
          case s2: (Inr perf)
          note eqs = eqs s2
          have f2: "fresh ?lo perf"
            using getProp_fresh [OF k1 f1 s2] .
          let ?h2 = "h1 @ [JObject [(''performance'', perf)]]"
          have k2: "extendsClosed h ?h2"
            using k1 f2 by (intro extendsClosed_append refsOf_object) simp_all
          show ?thesis
          proof (cases "setProp ?h2 clone ''categories'' (JRef (length h1))")
            case (Inl e)
            with assms have "out = Inl e"
              by (simp add: tweakLhrForPsi_heap_def Let_def eqs)
            moreover from assms Inl have "h' = ?h2"
              by (simp add: tweakLhrForPsi_heap_def Let_def eqs)
            ultimately show ?thesis using k2 by simp
          next
            case s3: (Inr h3)
            note eqs = eqs s3
            have f3: "extendsClosed h h3"
              using setProp_kept [OF k2 fc _ s3] k1 by (simp add: extendsClosed_def)
            show ?thesis
            proof (cases "getProp h3 clone ''audits''")
              case (Inl e)
              with assms have "out = Inl e"
                by (simp add: tweakLhrForPsi_heap_def Let_def eqs)
              moreover from assms Inl have "h' = h3"
                by (simp add: tweakLhrForPsi_heap_def Let_def eqs)
              ultimately show ?thesis using f3 by simp
            next
              case s4: (Inr auds)
              note eqs = eqs s4
              have f4: "fresh ?lo auds"
                using getProp_fresh [OF f3 fc s4] .
              show ?thesis
              proof (cases "deleteProp h3 auds ''performance-budget''")
                case (Inl e)
                with assms have "out = Inl e"
                  by (simp add: tweakLhrForPsi_heap_def Let_def eqs)
                moreover from assms Inl have "h' = h3"
                  by (simp add: tweakLhrForPsi_heap_def Let_def eqs)
                ultimately show ?thesis using f3 by simp
              next
                case s5: (Inr h4)
                note eqs = eqs s5
                have f5: "extendsClosed h h4"
                  using deleteProp_kept [OF f3 f4 s5] .
                show ?thesis
                proof (cases "getProp h4 clone ''categories''")
                  case (Inl e)
                  with assms have "out = Inl e"
                    by (simp add: tweakLhrForPsi_heap_def Let_def eqs)
                  moreover from assms Inl have "h' = h4"
                    by (simp add: tweakLhrForPsi_heap_def Let_def eqs)
                  ultimately show ?thesis using f5 by simp
                next
                  case s6: (Inr cats')
                  note eqs = eqs s6
                  have f6: "fresh ?lo cats'"
                    using getProp_fresh [OF f5 fc s6] .
                  show ?thesis
                  proof (cases "getProp h4 cats' ''performance''")
                    case (Inl e)
                    with assms have "out = Inl e"
                      by (simp add: tweakLhrForPsi_heap_def Let_def eqs)
                    moreover from assms Inl have "h' = h4"
                      by (simp add: tweakLhrForPsi_heap_def Let_def eqs)
                    ultimately show ?thesis using f5 by simp
                  next
                    case s7: (Inr perf')
                    note eqs = eqs s7
                    have f7: "fresh ?lo perf'"
                      using getProp_fresh [OF f5 f6 s7] .
                    show ?thesis
                    proof (cases "getProp h4 perf' ''auditRefs''")
                      case (Inl e)
                      with assms have "out = Inl e"
                        by (simp add: tweakLhrForPsi_heap_def Let_def eqs)
                      moreover from assms Inl have "h' = h4"
                        by (simp add: tweakLhrForPsi_heap_def Let_def eqs)
                      ultimately show ?thesis using f5 by simp
                    next
                      case s8: (Inr refs)
                      note eqs = eqs s8
                      have f8: "fresh ?lo refs"
                        using getProp_fresh [OF f5 f7 s8] .
                      show ?thesis
                      proof (cases "filterAuditRefs h4 refs")
                        case (Inl e)
                        with assms have "out = Inl e"
                          by (simp add: tweakLhrForPsi_heap_def Let_def eqs)
                        moreover from assms Inl have "h' = h4"
                          by (simp add: tweakLhrForPsi_heap_def Let_def eqs)
                        ultimately show ?thesis using f5 by simp
                      next
                        case s9: (Inr ks)
                        note eqs = eqs s9
                        have f9: "\<forall>v \<in> set ks. fresh ?lo v"
                          using filterAuditRefs_fresh [OF f5 f8 s9] .
                        let ?h5 = "h4 @ [JArray ks]"
                        have k5: "extendsClosed h ?h5"
                          using f5 f9 by (intro extendsClosed_append refsOf_array) simp_all
                        show ?thesis
                        proof (cases "setProp ?h5 perf' ''auditRefs'' (JRef (length h4))")
                          case (Inl e)
                          with assms have "out = Inl e"
                            by (simp add: tweakLhrForPsi_heap_def Let_def eqs)
                          moreover from assms Inl have "h' = ?h5"
                            by (simp add: tweakLhrForPsi_heap_def Let_def eqs)
                          ultimately show ?thesis using k5 by simp
                        next
                          case s10: (Inr h6)
                          note eqs = eqs s10
                          have f10: "extendsClosed h h6"
                            using setProp_kept [OF k5 f7 _ s10] f5 by (simp add: extendsClosed_def)
                          from assms have "out = Inr clone" "h' = h6"
                            by (simp_all add: tweakLhrForPsi_heap_def Let_def eqs)
                          then show ?thesis using f10 fc by simp
                        qed
                      qed
                    qed
                  qed
                qed
              qed
            qed
          qed
        qed
      qed
  qed
qed

text \<open>
  What \<open>JSON.parse\<close> allocates refers to allocated objects only.
\<close>

lemma below_simps [simp]:
  "below hi JUndefined" "below hi JNull" "below hi (JBool b)" "below hi (JNumber n)"
  "below hi (JString s)" "below hi (JRef a) = (a < hi)"
  by (simp_all add: below_def)

lemma below_mono: "below hi v \<Longrightarrow> hi \<le> hi' \<Longrightarrow> below hi' v"
  by (cases v) simp_all

lemma refsOf_array_below: "\<forall>v \<in> set vs. below hi v \<Longrightarrow> \<forall>b \<in> refsOf (JArray vs). b < hi"
  by fastforce

lemma refsOf_object_below:
  "\<forall>(k, v) \<in> set props. below hi v \<Longrightarrow> \<forall>b \<in> refsOf (JObject props). b < hi"
  by fastforce

lemma boundedFrom_append:
  assumes "boundedFrom lo h" and "\<forall>b \<in> refsOf obj. b < Suc (length h)"
  shows "boundedFrom lo (h @ [obj])"
  using assms by (auto simp: boundedFrom_def nth_append less_Suc_eq)

lemma parse_length:
  "parse j h = (v, h') \<Longrightarrow> length h \<le> length h'"
  "parseElements js h = (vs, h') \<Longrightarrow> length h \<le> length h'"
  "parseMembers ms h = (props, h') \<Longrightarrow> length h \<le> length h'"
  using parse_kept [OF _ extendsClosed_refl [of h]]
  by (simp_all add: extendsClosed_def)

lemma parse_bounded:
  "parse j h = (v, h') \<Longrightarrow> boundedFrom lo h \<Longrightarrow> boundedFrom lo h' \<and> below (length h') v"
  "parseElements js h = (vs, h') \<Longrightarrow> boundedFrom lo h \<Longrightarrow>
     boundedFrom lo h' \<and> (\<forall>v \<in> set vs. below (length h') v)"
  "parseMembers ms h = (props, h') \<Longrightarrow> boundedFrom lo h \<Longrightarrow>
     boundedFrom lo h' \<and> (\<forall>(k, v) \<in> set props. below (length h') v)"
proof (induction j h and js h and ms h arbitrary: v h' and vs h' and props h'
    rule: parse_parseElements_parseMembers.induct)
  case (5 js h)
  obtain es h1 where p: "parseElements js h = (es, h1)" by force
  from "5.IH" [OF p "5.prems"(2)] have k: "boundedFrom lo h1"
    and f: "\<forall>v \<in> set es. below (length h1) v"
    by simp_all
  from "5.prems"(1) p have v: "v = JRef (length h1)" and h': "h' = h1 @ [JArray es]" by simp_all
  have "\<forall>v \<in> set es. below (Suc (length h1)) v"
    using f below_mono by fastforce
  then have "boundedFrom lo h'"
    unfolding h' using k by (intro boundedFrom_append refsOf_array_below)
  then show ?case by (simp add: v h')
next
  case (6 ms h)
  obtain ps h1 where p: "parseMembers ms h = (ps, h1)" by force
  from "6.IH" [OF p "6.prems"(2)] have k: "boundedFrom lo h1"
    and f: "\<forall>(k, v) \<in> set ps. below (length h1) v"
    by simp_all
  from "6.prems"(1) p have v: "v = JRef (length h1)" and h': "h' = h1 @ [JObject ps]" by simp_all
  have "\<forall>(k, v) \<in> set ps. below (Suc (length h1)) v"
    using f below_mono by fastforce
  then have "boundedFrom lo h'"
    unfolding h' using k by (intro boundedFrom_append refsOf_object_below)
  then show ?case by (simp add: v h')
next
  case (8 j js h)
  obtain v1 h1 where p1: "parse j h = (v1, h1)" by force
  obtain vs2 h2 where p2: "parseElements js h1 = (vs2, h2)" by force
  from "8.IH"(1) [OF p1 "8.prems"(2)] have k1: "boundedFrom lo h1" and f1: "below (length h1) v1"
    by simp_all
  from "8.IH"(2) [OF p1 [symmetric] p2 k1]
  have k2: "boundedFrom lo h2" and f2: "\<forall>v \<in> set vs2. below (length h2) v" by simp_all
  have "below (length h2) v1"
    using f1 parse_length(2) [OF p2] by (rule below_mono)
  moreover from "8.prems"(1) p1 p2 have "vs = v1 # vs2" "h' = h2" by simp_all
  ultimately show ?case using k2 f2 by simp
next
  case (10 k j ms h)
  obtain v1 h1 where p1: "parse j h = (v1, h1)" by force
  obtain ps2 h2 where p2: "parseMembers ms h1 = (ps2, h2)" by force
  from "10.IH"(1) [OF p1 "10.prems"(2)] have k1: "boundedFrom lo h1" and f1: "below (length h1) v1"
    by simp_all
  from "10.IH"(2) [OF p1 [symmetric] p2 k1]
  have k2: "boundedFrom lo h2" and f2: "\<forall>(k, v) \<in> set ps2. below (length h2) v" by simp_all
  have "below (length h2) v1"
    using f1 parse_length(3) [OF p2] by (rule below_mono)
  moreover from "10.prems"(1) p1 p2 have "props = (k, v1) # ps2" "h' = h2" by simp_all
  ultimately show ?case using k2 f2 by simp
qed auto

text \<open>
  Reading a property after an assignment, a deletion or an allocation.
\<close>

lemma map_of_setKey:
  "map_of (setKey props key v) k = (if k = key then Some v else map_of props k)"
  by (induction props) auto

lemma map_of_filter_key:
  "map_of (filter (\<lambda>(k, w). k \<noteq> key) props) k' = (if k' = key then None else map_of props k')"
  by (induction props) auto

lemma getProp_append:
  assumes "getProp h b key = Inr v"
  shows "getProp (h @ new) b key = Inr v"
  using assms
  by (auto simp: getProp_def nth_append split: jsval.splits if_splits jsobj.splits)

lemma getProp_setProp_other:
  assumes "setProp h base key v = Inr h'" and "key' \<noteq> key"
  shows "getProp h' b key' = getProp h b key'"
proof -
  from assms(1) obtain a props where base: "base = JRef a" and a: "a < length h"
    and o: "h ! a = JObject props" and h': "h' = h[a := JObject (setKey props key v)]"
    by (auto simp: setProp_def split: jsval.splits if_splits jsobj.splits)
  show ?thesis
  proof (cases "b = JRef a")
    case True
    then show ?thesis using a o assms(2) by (simp add: getProp_def h' map_of_setKey)
  next
    case False
    then show ?thesis
      by (cases b) (auto simp: getProp_def h' nth_list_update split: jsobj.splits)
  qed
qed

lemma getProp_setProp_same:
  assumes "setProp h base key v = Inr h'"
  shows "getProp h' base key = Inr v"
proof -
  from assms(1) obtain a props where base: "base = JRef a" and a: "a < length h"
    and o: "h ! a = JObject props" and h': "h' = h[a := JObject (setKey props key v)]"
    by (auto simp: setProp_def split: jsval.splits if_splits jsobj.splits)
  then show ?thesis by (simp add: getProp_def map_of_setKey)
qed

lemma getProp_deleteProp_other:
  assumes "deleteProp h base key = Inr h'" and "key' \<noteq> key"
  shows "getProp h' b key' = getProp h b key'"
proof (cases "\<exists>a props. base = JRef a \<and> a < length h \<and> h ! a = JObject props")
  case True
  then obtain a props where base: "base = JRef a" and a: "a < length h"
    and o: "h ! a = JObject props" by blast
  then have h': "h' = h[a := JObject (filter (\<lambda>(k, w). k \<noteq> key) props)]"
    using assms(1) by (simp add: deleteProp_def)
  show ?thesis
  proof (cases "b = JRef a")
    case True
    then show ?thesis using a o assms(2) by (simp add: getProp_def h' map_of_filter_key)
  next
    case False
    then show ?thesis
      by (cases b) (auto simp: getProp_def h' nth_list_update split: jsobj.splits)
  qed
next
  case False
  then have "h' = h"
    using assms(1)
    by (auto simp: deleteProp_def split: jsval.splits if_splits jsobj.splits)
  then show ?thesis by simp
qed

lemma getProp_deleteProp_same:
  assumes "deleteProp h base key = Inr h'"
  shows "getProp h' base key = Inr JUndefined"
  using assms
  by (auto simp: deleteProp_def getProp_def map_of_filter_key
      split: jsval.splits if_splits jsobj.splits)


text \<open>
  The statements a returning call has gone through, and what the filter keeps.
\<close>

lemma tweakLhrForPsi_heap_returns:
  assumes "tweakLhrForPsi_heap h lhr = (Inr v, h')"
  obtains h1 cats perf h3 auds h4 cats' perf' refs ks where
    "jsonClone h lhr = (Inr v, h1)"
    "getProp h1 v ''categories'' = Inr cats"
    "getProp h1 cats ''performance'' = Inr perf"
    "setProp (h1 @ [JObject [(''performance'', perf)]]) v ''categories'' (JRef (length h1)) = Inr h3"
    "getProp h3 v ''audits'' = Inr auds"
    "deleteProp h3 auds ''performance-budget'' = Inr h4"
    "getProp h4 v ''categories'' = Inr cats'"
    "getProp h4 cats' ''performance'' = Inr perf'"
    "getProp h4 perf' ''auditRefs'' = Inr refs"
    "filterAuditRefs h4 refs = Inr ks"
    "setProp (h4 @ [JArray ks]) perf' ''auditRefs'' (JRef (length h4)) = Inr h'"
  using assms
  by (auto simp: tweakLhrForPsi_heap_def Let_def split: prod.splits sum.splits)


lemma jsonClone_bounded:
  assumes "jsonClone h v = (Inr c, h')"
  shows "boundedFrom (length h) h' \<and> below (length h') c"
proof -
  have b: "boundedFrom (length h) h" by (simp add: boundedFrom_def)
  from assms obtain t where "parse t h = (c, h')"
    by (auto simp: jsonClone_def split: sum.splits option.splits prod.splits)
  from parse_bounded(1) [OF this b] show ?thesis .
qed

lemma getProp_below:
  assumes "boundedFrom lo h" and "fresh lo base" and "getProp h base key = Inr v"
  shows "below (length h) v"
proof (cases base)
  case (JRef a)
  with assms(3) have a: "a < length h"
    by (simp add: getProp_def split: if_splits)
  have r: "\<forall>b \<in> refsOf (h ! a). b < length h"
    using assms(1,2) a JRef by (simp add: boundedFrom_def fresh_def)
  show ?thesis
  proof (cases "h ! a")
    case (JObject props)
    show ?thesis
    proof (cases "map_of props key")
      case None
      then show ?thesis using assms(3) JRef a JObject by (auto simp: getProp_def)
    next
      case (Some w)
      then have "w \<in> snd ` set props" by (force dest: map_of_SomeD)
      then have "below (length h) w" using r JObject by (cases w) auto
      then show ?thesis using assms(3) JRef a JObject Some by (auto simp: getProp_def)
    qed
  next
    case (JArray es)
    then show ?thesis using assms(3) JRef a by (auto simp: getProp_def)
  qed
qed (use assms(3) in \<open>auto simp: getProp_def\<close>)

lemma setProp_nth:
  assumes "setProp h base key v = Inr h'" and "base \<noteq> JRef n"
  shows "h' ! n = h ! n" and "length h' = length h"
  using assms
  by (auto simp: setProp_def split: jsval.splits if_splits jsobj.splits)

lemma deleteProp_nth:
  assumes "deleteProp h base key = Inr h'" and "base \<noteq> JRef n"
  shows "h' ! n = h ! n"
  using assms
  by (auto simp: deleteProp_def split: jsval.splits if_splits jsobj.splits)

lemma deleteProp_length:
  assumes "deleteProp h base key = Inr h'"
  shows "length h' = length h"
  using assms
  by (auto simp: deleteProp_def split: jsval.splits if_splits jsobj.splits)

lemma setProp_length:
  assumes "setProp h base key v = Inr h'"
  shows "length h' = length h"
  using assms
  by (auto simp: setProp_def split: jsval.splits if_splits jsobj.splits)

lemma getProp_defined:
  assumes "getProp h (JRef a) key = Inr v"
  shows "a < length h"
  using assms by (simp add: getProp_def split: if_splits)

lemma collect_Inr:
  "collect xs = Inr ys \<Longrightarrow> xs = map Inr ys"
  by (induction xs arbitrary: ys) (auto split: sum.splits)

lemma filterAuditRefs_filter:
  assumes "filterAuditRefs h refs = Inr ks"
  obtains a es where "refs = JRef a" "a < length h" "h ! a = JArray es"
    "ks = filter (\<lambda>k. notBudget h k = Inr True) es"
proof -
  from assms obtain a es keep where base: "refs = JRef a" and a: "a < length h"
    and o: "h ! a = JArray es" and c: "collect (map (notBudget h) es) = Inr keep"
    and ks: "ks = map fst (filter snd (zip es keep))"
    by (auto simp: filterAuditRefs_def split: jsval.splits if_splits jsobj.splits sum.splits)
  from collect_Inr [OF c] have m: "map (notBudget h) es = map Inr keep" .
  then have "map fst (filter snd (zip es keep)) = filter (\<lambda>k. notBudget h k = Inr True) es"
  proof (induction es arbitrary: keep)
    case Nil
    then show ?case by simp
  next
    case (Cons e es)
    then obtain b bs where "keep = b # bs" by (cases keep) auto
    with Cons show ?case by auto
  qed
  with base a o ks show ?thesis using that by blast
qed

lemma notBudget_True:
  assumes "notBudget h k = Inr True"
  obtains s where "getProp h k ''id'' = Inr (JString s)" "\<not> endsWith s ''-budget''"
  using assms by (auto simp: notBudget_def split: sum.splits jsval.splits)


text \<open>
  The store after a returning call, read from the result: its \<open>categories\<close> is an
  object with the single key \<open>performance\<close>; the \<open>auditRefs\<close> of that category is
  an array whose entries all have a string \<open>id\<close> that does not end in \<open>-budget\<close>; and
  the \<open>audits\<close> of the result has no \<open>performance-budget\<close>. This is what the trim on
  records (\<open>tweakLhrForPsi\<close> above) returns, so the two embeddings agree on the shape
  of the result. No assumption is made on the store the function starts from.
\<close>

theorem tweakLhrForPsi_heap_shape:
  assumes "tweakLhrForPsi_heap h lhr = (Inr v, h')"
  shows "\<exists>c perf r ks auds.
           getProp h' v ''categories'' = Inr (JRef c) \<and>
           c < length h' \<and> h' ! c = JObject [(''performance'', perf)] \<and>
           getProp h' perf ''auditRefs'' = Inr (JRef r) \<and>
           r < length h' \<and> h' ! r = JArray ks \<and>
           (\<forall>k \<in> set ks. \<exists>s. getProp h' k ''id'' = Inr (JString s) \<and> \<not> endsWith s ''-budget'') \<and>
           getProp h' v ''audits'' = Inr auds \<and>
           getProp h' auds ''performance-budget'' = Inr JUndefined"
proof -
  from assms obtain h1 cats perf h3 auds h4 cats' perf' refs ks where
    c: "jsonClone h lhr = (Inr v, h1)"
    and g1: "getProp h1 v ''categories'' = Inr cats"
    and g2: "getProp h1 cats ''performance'' = Inr perf"
    and s1: "setProp (h1 @ [JObject [(''performance'', perf)]]) v ''categories'' (JRef (length h1)) = Inr h3"
    and g3: "getProp h3 v ''audits'' = Inr auds"
    and d: "deleteProp h3 auds ''performance-budget'' = Inr h4"
    and g4: "getProp h4 v ''categories'' = Inr cats'"
    and g5: "getProp h4 cats' ''performance'' = Inr perf'"
    and g6: "getProp h4 perf' ''auditRefs'' = Inr refs"
    and f: "filterAuditRefs h4 refs = Inr ks"
    and s2: "setProp (h4 @ [JArray ks]) perf' ''auditRefs'' (JRef (length h4)) = Inr h'"
    by (rule tweakLhrForPsi_heap_returns)
  let ?lo = "length h" and ?n = "length h1"
  let ?h2 = "h1 @ [JObject [(''performance'', perf)]]" and ?h5 = "h4 @ [JArray ks]"
  have k1: "extendsClosed h h1" and fv: "fresh ?lo v"
    using jsonClone_kept [OF c] by simp_all
  have b1: "boundedFrom ?lo h1"
    using jsonClone_bounded [OF c] by simp
  have fcats: "fresh ?lo cats"
    using getProp_fresh [OF k1 fv g1] .
  have bperf: "below ?n perf"
    using getProp_below [OF b1 fcats g2] .
  have l3: "length h3 = Suc ?n"
    using setProp_length [OF s1] by simp
  have l4: "length h4 = Suc ?n"
    using deleteProp_length [OF d] l3 by simp
  have l': "length h' = Suc (Suc ?n)"
    using setProp_length [OF s2] l4 by simp
  \<comment> \<open>the clone is an object of the store after the copy\<close>
  from s1 obtain ca where v: "v = JRef ca"
    by (auto simp: setProp_def split: jsval.splits)
  have ca: "ca < ?n"
    using getProp_defined g1 v by blast
  \<comment> \<open>its audits\<close>
  obtain x where x: "getProp h1 v ''audits'' = Inr x"
    using ca v by (cases "h1 ! ca") (simp_all add: getProp_def)
  have "getProp h3 v ''audits'' = getProp ?h2 v ''audits''"
    using getProp_setProp_other [OF s1] by simp
  also have "\<dots> = Inr x"
    using getProp_append [OF x] .
  finally have xa: "x = auds" using g3 by simp
  have bauds: "below ?n auds"
    using getProp_below [OF b1 fv x] xa by simp
  \<comment> \<open>the new categories object stays as it was made\<close>
  have "h3 ! ?n = ?h2 ! ?n"
    using setProp_nth(1) [OF s1] v ca by simp
  then have n3: "h3 ! ?n = JObject [(''performance'', perf)]" by simp
  have "h4 ! ?n = h3 ! ?n"
    using deleteProp_nth [OF d] bauds by (cases auds) auto
  with n3 have n4: "h4 ! ?n = JObject [(''performance'', perf)]" by simp
  \<comment> \<open>the second reading of clone.categories.performance\<close>
  have c3: "getProp h3 v ''categories'' = Inr (JRef ?n)"
    using getProp_setProp_same [OF s1] .
  have c4: "getProp h4 v ''categories'' = Inr (JRef ?n)"
    using getProp_deleteProp_other [OF d, of "''categories''" v] c3 by simp
  with g4 have cats': "cats' = JRef ?n" by simp
  have perf': "perf' = perf"
    using g5 n4 l4 by (simp add: cats' getProp_def)
  have pn: "perf \<noteq> JRef ?n" "perf \<noteq> JRef (Suc ?n)"
    using bperf by auto
  \<comment> \<open>the final store\<close>
  have "getProp ?h5 v ''categories'' = Inr (JRef ?n)"
    using getProp_append [OF c4] .
  then have r1: "getProp h' v ''categories'' = Inr (JRef ?n)"
    using getProp_setProp_other [OF s2, of "''categories''" v] by simp
  have "h' ! ?n = ?h5 ! ?n"
    using setProp_nth(1) [OF s2] pn perf' by simp
  then have r2: "h' ! ?n = JObject [(''performance'', perf)]"
    using n4 l4 by (simp add: nth_append)
  have r3: "getProp h' perf ''auditRefs'' = Inr (JRef (Suc ?n))"
    using getProp_setProp_same [OF s2] perf' l4 by simp
  have "h' ! Suc ?n = ?h5 ! Suc ?n"
    using setProp_nth(1) [OF s2] pn perf' by simp
  then have r4: "h' ! Suc ?n = JArray ks"
    using l4 by (simp add: nth_append)
  have r5: "\<exists>s. getProp h' k ''id'' = Inr (JString s) \<and> \<not> endsWith s ''-budget''"
    if "k \<in> set ks" for k
  proof -
    from f that have "notBudget h4 k = Inr True"
      by (auto elim!: filterAuditRefs_filter)
    then obtain s where i: "getProp h4 k ''id'' = Inr (JString s)" and e: "\<not> endsWith s ''-budget''"
      by (rule notBudget_True)
    have "getProp h' k ''id'' = getProp ?h5 k ''id''"
      using getProp_setProp_other [OF s2] by simp
    also have "\<dots> = Inr (JString s)"
      using getProp_append [OF i] .
    finally show ?thesis using e by blast
  qed
  have a4: "getProp h4 v ''audits'' = Inr auds"
    using getProp_deleteProp_other [OF d, of "''audits''" v] g3 by simp
  have "getProp h' v ''audits'' = getProp ?h5 v ''audits''"
    using getProp_setProp_other [OF s2] by simp
  also have "\<dots> = Inr auds"
    using getProp_append [OF a4] .
  finally have r6: "getProp h' v ''audits'' = Inr auds" .
  have "getProp h' auds ''performance-budget'' = getProp ?h5 auds ''performance-budget''"
    using getProp_setProp_other [OF s2] by simp
  also have "\<dots> = Inr JUndefined"
    using getProp_append [OF getProp_deleteProp_same [OF d]] .
  finally have r7: "getProp h' auds ''performance-budget'' = Inr JUndefined" .
  show ?thesis
    using r1 r2 r3 r4 r5 r6 r7 l' by (intro exI [of _ ?n] exI [of _ perf] exI [of _ "Suc ?n"] exI [of _ ks] exI [of _ auds]) simp
qed

text \<open>
  The two assignments of \<open>tweakLhrForPsi\<close> never fail: where the function gets to
  them, their targets are objects (a property of the target was read just before, and
  what was read was used as an object or an array).
\<close>

lemma getProp_defined_object:
  assumes "getProp h base key = Inr v" and "v \<noteq> JUndefined"
  shows "\<exists>a props. base = JRef a \<and> a < length h \<and> h ! a = JObject props"
  using assms
  by (auto simp: getProp_def split: jsval.splits if_splits jsobj.splits)

lemma setProp_object:
  assumes "base = JRef a" and "a < length h" and "h ! a = JObject props"
  shows "\<exists>h'. setProp (h @ new) base key v = Inr h'"
  using assms by (simp add: setProp_def nth_append)

lemma setProp_categories_succeeds:
  assumes "getProp h1 clone ''categories'' = Inr cats"
    and "getProp h1 cats ''performance'' = Inr perf"
  shows "\<exists>h3. setProp (h1 @ new) clone ''categories'' v = Inr h3"
proof -
  have "cats \<noteq> JUndefined"
    using assms(2) by (auto simp: getProp_def)
  from getProp_defined_object [OF assms(1) this] show ?thesis
    using setProp_object by blast
qed

lemma setProp_auditRefs_succeeds:
  assumes "getProp h4 perf ''auditRefs'' = Inr refs"
    and "filterAuditRefs h4 refs = Inr ks"
  shows "\<exists>h6. setProp (h4 @ new) perf ''auditRefs'' v = Inr h6"
proof -
  have "refs \<noteq> JUndefined"
    using assms(2) by (auto simp: filterAuditRefs_def)
  from getProp_defined_object [OF assms(1) this] show ?thesis
    using setProp_object by blast
qed

text \<open>
  C6. \<open>tweakLhrForPsi\<close> does not change what it is given: whatever its outcome, every
  object that was in the store before the call is the same after it (so the input's
  categories, its audits and the list of audit references of its performance category
  are). When it returns a Result, no object reachable from that Result was in the store
  before the call: the Result shares no object with the input.
\<close>

theorem tweakLhrForPsi_heap_frame:
  assumes "tweakLhrForPsi_heap h lhr = (out, h')"
  shows "take (length h) h' = h \<and>
         (\<forall>v. out = Inr v \<longrightarrow> (\<forall>a \<in> reach h' v. length h \<le> a))"
proof -
  from tweakLhrForPsi_heap_kept [OF assms]
  have k: "extendsClosed h h'" and f: "\<forall>v. out = Inr v \<longrightarrow> fresh (length h) v" by simp_all
  from k have "take (length h) h' = h" and c: "closedFrom (length h) h'"
    by (simp_all add: extendsClosed_def)
  moreover have "length h \<le> a" if "out = Inr v" "a \<in> reach h' v" for v a
    using reach_fresh [OF that(2) c] f that(1) by simp
  ultimately show ?thesis by blast
qed

text \<open>
  The trim of the sample store: the clone is built at the addresses 11 to 21, the new
  categories object and the filtered list of audit references at 22 and 23.
\<close>

lemma tweakLhrForPsi_heap_sample:
  "tweakLhrForPsi_heap sampleHeap (JRef 0) =
     (Inr (JRef 21),
      sampleHeap @
      [JObject [(''id'', JString ''first-contentful-paint''), (''weight'', JNumber 3)],
       JObject [(''id'', JString ''performance-budget''), (''weight'', JNumber 0)],
       JArray [JRef 11, JRef 12],
       JObject [(''id'', JString ''performance''), (''score'', JNumber (1 / 2)),
                (''auditRefs'', JRef 23)],
       JArray [],
       JObject [(''id'', JString ''seo''), (''score'', JNull), (''auditRefs'', JRef 15)],
       JObject [(''performance'', JRef 14), (''seo'', JRef 16)],
       JObject [(''score'', JNull)],
       JObject [(''score'', JNumber 1)],
       JObject [(''first-contentful-paint'', JRef 19)],
       JObject [(''categories'', JRef 22), (''audits'', JRef 20)],
       JObject [(''performance'', JRef 14)],
       JArray [JRef 11]])"
  by (simp add: tweakLhrForPsi_heap_def jsonClone_def sampleHeap_def getProp_def setProp_def
      deleteProp_def filterAuditRefs_def notBudget_def endsWith_def Let_def)

theorem tweakLhrForPsi_heap_frame_witness:
  "\<exists>h'. tweakLhrForPsi_heap sampleHeap (JRef 0) = (Inr (JRef 21), h') \<and>
     length sampleHeap = 11 \<and> take 11 h' = sampleHeap \<and>
     \<not> (\<exists>a \<in> reach h' (JRef 21). a < 11)"
proof -
  obtain h' where e: "tweakLhrForPsi_heap sampleHeap (JRef 0) = (Inr (JRef 21), h')"
    using tweakLhrForPsi_heap_sample by simp
  have l: "length sampleHeap = 11" by (simp add: sampleHeap_def)
  from tweakLhrForPsi_heap_frame [OF e] have "take 11 h' = sampleHeap"
    and "\<forall>a \<in> reach h' (JRef 21). 11 \<le> a"
    by (simp_all add: l)
  then have "take 11 h' = sampleHeap" and "\<not> (\<exists>a \<in> reach h' (JRef 21). a < 11)"
    by auto
  with e l show ?thesis by blast
qed

end
